theory Spec2Isabelle
  imports Main "HOL-Library.Sublist"
begin

section \<open>Python values\<close>

text \<open>
  A Python \<open>str\<close> is a sequence of Unicode code points, so a string is modelled as a list
  of code points and \<open>length\<close> counts what \<open>len\<close> counts. ASCII literals of the source are
  written \<open>lit ''...''\<close>; the Chinese literals are given by their code points.
\<close>

type_synonym pystr = "nat list"

abbreviation (input) lit :: "string \<Rightarrow> pystr" where
  "lit s \<equiv> map of_char s"

text \<open>
  The values \<open>json.load\<close> and \<open>json.loads\<close> produce: \<open>None\<close>, \<open>bool\<close>, \<open>int\<close>, \<open>str\<close>,
  \<open>list\<close> and \<open>dict\<close> (an association list in insertion order; lookup takes the entry
  of a key). JSON numbers with a fraction or an exponent become Python floats; floating
  point is outside this development.
\<close>

datatype json =
    JNull
  | JBool bool
  | JInt int
  | JStr pystr
  | JArr "json list"
  | JObj "(pystr \<times> json) list"

text \<open>The exceptions that can leave a function of the program.\<close>

datatype error =
    TypeError
  | AttributeError
  | KeyError
  | ValueError
  | RecursionError
  | UnicodeEncodeError

text \<open>Truthiness, as \<open>if x:\<close> and \<open>not x\<close> test it.\<close>

fun truthy :: "json \<Rightarrow> bool" where
  "truthy JNull = False"
| "truthy (JBool b) = b"
| "truthy (JInt i) = (i \<noteq> 0)"
| "truthy (JStr s) = (s \<noteq> [])"
| "truthy (JArr xs) = (xs \<noteq> [])"
| "truthy (JObj kvs) = (kvs \<noteq> [])"

text \<open>\<open>d.get(k)\<close>: the value of \<open>k\<close>, \<open>None\<close> when the key is missing; only a dict has \<open>get\<close>.\<close>

definition dict_get :: "(pystr \<times> json) list \<Rightarrow> pystr \<Rightarrow> json" where
  "dict_get kvs k = (case map_of kvs k of None \<Rightarrow> JNull | Some v \<Rightarrow> v)"

fun py_get :: "json \<Rightarrow> pystr \<Rightarrow> error + json" where
  "py_get (JObj kvs) k = Inr (dict_get kvs k)"
| "py_get _ k = Inl AttributeError"

text \<open>\<open>for x in v\<close>: a list yields its elements, a dict its keys, a string its characters.\<close>

fun py_iter :: "json \<Rightarrow> error + json list" where
  "py_iter (JArr xs) = Inr xs"
| "py_iter (JObj kvs) = Inr (map (\<lambda>kv. JStr (fst kv)) kvs)"
| "py_iter (JStr s) = Inr (map (\<lambda>c. JStr [c]) s)"
| "py_iter _ = Inl TypeError"

text \<open>\<open>needle in hay\<close> for a string needle occurring inside a string.\<close>

fun contains :: "pystr \<Rightarrow> pystr \<Rightarrow> bool" where
  "contains needle [] = (needle = [])"
| "contains needle (c # cs) = (prefix needle (c # cs) \<or> contains needle cs)"

text \<open>
  \<open>k in v\<close> for a string \<open>k\<close>: key membership in a dict, element membership in a list,
  substring test in a string; any other right operand is not iterable.
\<close>

fun py_in :: "pystr \<Rightarrow> json \<Rightarrow> error + bool" where
  "py_in k (JObj kvs) = Inr (k \<in> set (map fst kvs))"
| "py_in k (JArr xs) = Inr (JStr k \<in> set xs)"
| "py_in k (JStr s) = Inr (contains k s)"
| "py_in k _ = Inl TypeError"

text \<open>\<open>v[k]\<close> for a string \<open>k\<close>: only a dict can be indexed by a string.\<close>

fun py_getitem :: "json \<Rightarrow> pystr \<Rightarrow> error + json" where
  "py_getitem (JObj kvs) k = (case map_of kvs k of None \<Rightarrow> Inl KeyError | Some v \<Rightarrow> Inr v)"
| "py_getitem _ k = Inl TypeError"

subsection \<open>Strings\<close>

text \<open>
  \<open>str.isspace\<close> of one character; the regular expression class \<open>\s\<close> of a \<open>str\<close> pattern
  is the same set of code points.
\<close>

definition isspace :: "nat \<Rightarrow> bool" where
  "isspace c \<longleftrightarrow>
     (9 \<le> c \<and> c \<le> 13) \<or> (28 \<le> c \<and> c \<le> 32) \<or> c = 133 \<or> c = 160 \<or> c = 5760 \<or>
     (8192 \<le> c \<and> c \<le> 8202) \<or> c = 8232 \<or> c = 8233 \<or> c = 8239 \<or> c = 8287 \<or> c = 12288"

definition lstrip :: "pystr \<Rightarrow> pystr" where
  "lstrip s = dropWhile isspace s"

definition rstrip :: "pystr \<Rightarrow> pystr" where
  "rstrip s = rev (dropWhile isspace (rev s))"

definition strip :: "pystr \<Rightarrow> pystr" where
  "strip s = rstrip (lstrip s)"

text \<open>\<open>sep.join(parts)\<close> on strings.\<close>

fun join :: "pystr \<Rightarrow> pystr list \<Rightarrow> pystr" where
  "join sep [] = []"
| "join sep [x] = x"
| "join sep (x # y # ys) = x @ sep @ join sep (y # ys)"

text \<open>\<open>sep.join(parts)\<close> raises \<open>TypeError\<close> when an item is not a \<open>str\<close>.\<close>

fun strs_of :: "json list \<Rightarrow> pystr list option" where
  "strs_of [] = Some []"
| "strs_of (JStr s # vs) = map_option ((#) s) (strs_of vs)"
| "strs_of (_ # vs) = None"

definition py_join :: "pystr \<Rightarrow> json list \<Rightarrow> error + pystr" where
  "py_join sep parts = (case strs_of parts of None \<Rightarrow> Inl TypeError | Some ss \<Rightarrow> Inr (join sep ss))"

section \<open>The extractor (tools/extractor.py)\<close>

subsection \<open>extract_content\<close>

definition LBR :: nat where "LBR = 12304"
definition RBR :: nat where "RBR = 12305"

text \<open>The field name of the description section, four code points.\<close>

definition FIELD_DESCRIPTION :: pystr where
  "FIELD_DESCRIPTION = [38656, 27714, 25551, 36848]"

text \<open>
  The pattern is \<^verbatim>\<open>LBR escaped_field_name RBR \s*(.*?)\s*(?=LBR|\Z)\<close> under \<open>re.DOTALL\<close>.
  \<open>re.escape\<close> makes the field name match literally, so the pattern opens with the
  literal \<open>marker\<close>. The rest of the pattern is followed component by component, in the
  order in which the backtracking matcher tries the alternatives.
\<close>

definition marker :: "pystr \<Rightarrow> pystr" where
  "marker field_name = LBR # field_name @ [RBR]"

text \<open>
  \<^verbatim>\<open>\s*(?=LBR|\Z)\<close>: the greedy \<open>\s*\<close> takes a whitespace character when there is one and
  falls back to taking none; the lookahead holds at the opening bracket and at the end.
\<close>

fun trailer :: "pystr \<Rightarrow> bool" where
  "trailer [] = True"
| "trailer (c # cs) = ((isspace c \<and> trailer cs) \<or> c = LBR)"

text \<open>
  \<^verbatim>\<open>(.*?)\<close> followed by the trailer: the lazy group first tries to stop, and takes one more
  character (any character, under \<open>re.DOTALL\<close>) only when the trailer fails here. The
  result is group 1.
\<close>

fun lazy_group :: "pystr \<Rightarrow> pystr option" where
  "lazy_group [] = (if trailer [] then Some [] else None)"
| "lazy_group (c # cs) =
     (if trailer (c # cs) then Some [] else map_option ((#) c) (lazy_group cs))"

text \<open>
  The first \<^verbatim>\<open>\s*\<close>, greedy: take a whitespace character and go on; when the rest of the
  pattern fails after that, give the character back and try the group from here.
\<close>

fun after_marker :: "pystr \<Rightarrow> pystr option" where
  "after_marker [] = lazy_group []"
| "after_marker (c # cs) =
     (if isspace c then (case after_marker cs of Some g \<Rightarrow> Some g | None \<Rightarrow> lazy_group (c # cs))
      else lazy_group (c # cs))"

definition match_here :: "pystr \<Rightarrow> pystr \<Rightarrow> pystr option" where
  "match_here field_name text =
     (if prefix (marker field_name) text
      then after_marker (drop (length (marker field_name)) text) else None)"

text \<open>\<open>re.search\<close>: the match at the leftmost start position that has one; group 1 of it.\<close>

fun re_search :: "pystr \<Rightarrow> pystr \<Rightarrow> pystr option" where
  "re_search field_name [] = match_here field_name []"
| "re_search field_name (c # cs) =
     (case match_here field_name (c # cs) of
        Some g \<Rightarrow> Some g
      | None \<Rightarrow> re_search field_name cs)"

text \<open>
  \<open>re.search\<close> raises \<open>TypeError\<close> when the text is not a string (\<open>None\<close>, a number, a
  list), which is how \<open>extract_content\<close> fails on such an argument.
\<close>

fun extract_content :: "json \<Rightarrow> pystr \<Rightarrow> error + pystr option" where
  "extract_content (JStr text) field_name = Inr (map_option strip (re_search field_name text))"
| "extract_content _ field_name = Inl TypeError"

text \<open>
  The reading of the specification to compare with: the section text runs up to the next
  complete marker, an opening bracket that a closing bracket follows, or to the end of
  the string when there is none.
\<close>

fun spec_until_next_marker :: "pystr \<Rightarrow> pystr" where
  "spec_until_next_marker [] = []"
| "spec_until_next_marker (c # cs) =
     (if c = LBR \<and> RBR \<in> set cs then [] else c # spec_until_next_marker cs)"

subsection \<open>extract_descriptions_from_list and process_json_file\<close>

text \<open>
  The loop of \<open>extract_descriptions_from_list\<close> over the items of \<open>req_list\<close>, with the
  list \<open>descriptions\<close> it appends to. Each Python operation that can raise is a branch.
\<close>

fun extract_descriptions_loop :: "json list \<Rightarrow> pystr list \<Rightarrow> error + pystr list" where
  "extract_descriptions_loop [] descriptions = Inr descriptions"
| "extract_descriptions_loop (req # reqs) descriptions =
     (case py_in (lit ''description'') req of
        Inl e \<Rightarrow> Inl e
      | Inr False \<Rightarrow> extract_descriptions_loop reqs descriptions
      | Inr True \<Rightarrow>
          (case py_getitem req (lit ''description'') of
             Inl e \<Rightarrow> Inl e
           | Inr d \<Rightarrow>
               if truthy d then
                 (case extract_content d FIELD_DESCRIPTION of
                    Inl e \<Rightarrow> Inl e
                  | Inr None \<Rightarrow> extract_descriptions_loop reqs descriptions
                  | Inr (Some ar_description) \<Rightarrow>
                      if ar_description \<noteq> []
                      then extract_descriptions_loop reqs (descriptions @ [ar_description])
                      else extract_descriptions_loop reqs descriptions)
               else extract_descriptions_loop reqs descriptions))"

definition extract_descriptions_from_list :: "json \<Rightarrow> error + pystr list" where
  "extract_descriptions_from_list req_list =
     (case py_iter req_list of
        Inl e \<Rightarrow> Inl e
      | Inr reqs \<Rightarrow> extract_descriptions_loop reqs [])"

text \<open>The dict a metric record is, with its three keys in the order of the source.\<close>

definition metric_record :: "json \<Rightarrow> pystr \<Rightarrow> nat \<Rightarrow> json" where
  "metric_record row_n concatenated description_count =
     JObj [(lit ''row'', row_n),
           (lit ''concatenated'', JStr concatenated),
           (lit ''description_count'', JInt (int description_count))]"

fun process_json_loop :: "json list \<Rightarrow> json list \<Rightarrow> error + json list" where
  "process_json_loop [] results = Inr results"
| "process_json_loop (item # items) results =
     (case py_get item (lit ''row_number'') of
        Inl e \<Rightarrow> Inl e
      | Inr row_n \<Rightarrow>
          (case py_get item (lit ''decomposed_list'') of
             Inl e \<Rightarrow> Inl e
           | Inr decomposed_list \<Rightarrow>
               if truthy row_n \<and> truthy decomposed_list then
                 (case extract_descriptions_from_list decomposed_list of
                    Inl e \<Rightarrow> Inl e
                  | Inr descriptions \<Rightarrow>
                      process_json_loop items
                        (results @ [metric_record row_n (join [32] descriptions) (length descriptions)]))
               else process_json_loop items results))"

text \<open>
  \<open>process_json_file\<close> on the parsed content of the file it is given (\<open>results_data\<close>);
  opening and parsing the file happen before the loop and are not caught there.
\<close>

definition process_json_file :: "json \<Rightarrow> error + json list" where
  "process_json_file results_data =
     (case py_iter results_data of
        Inl e \<Rightarrow> Inl e
      | Inr items \<Rightarrow> process_json_loop items [])"

text \<open>
  A decomposition-output record as the specification's data model has it: a dict whose
  \<open>decomposed_list\<close> is a list of dicts that each hold a string under \<open>description\<close>.
\<close>

fun sub_requirement :: "json \<Rightarrow> bool" where
  "sub_requirement (JObj kvs) =
     (case map_of kvs (lit ''description'') of Some (JStr d) \<Rightarrow> True | _ \<Rightarrow> False)"
| "sub_requirement _ = False"

fun decomposition_result :: "json \<Rightarrow> bool" where
  "decomposition_result (JObj kvs) =
     (case dict_get kvs (lit ''decomposed_list'') of
        JArr subs \<Rightarrow> list_all sub_requirement subs
      | _ \<Rightarrow> False)"
| "decomposition_result _ = False"

text \<open>The description text of a sub-requirement and the sub-requirements of a record.\<close>

fun description_of :: "json \<Rightarrow> pystr" where
  "description_of (JObj kvs) = (case map_of kvs (lit ''description'') of Some (JStr d) \<Rightarrow> d | _ \<Rightarrow> [])"
| "description_of _ = []"

fun subs_of :: "json \<Rightarrow> json list" where
  "subs_of (JObj kvs) = (case dict_get kvs (lit ''decomposed_list'') of JArr subs \<Rightarrow> subs | _ \<Rightarrow> [])"
| "subs_of _ = []"

fun row_number_of :: "json \<Rightarrow> json" where
  "row_number_of (JObj kvs) = dict_get kvs (lit ''row_number'')"
| "row_number_of _ = JNull"

text \<open>
  The non-empty description sections of a list of sub-requirements, in order: what
  \<open>extract_content\<close> finds under the description marker of each description.
\<close>

definition sections :: "json list \<Rightarrow> pystr list" where
  "sections subs =
     filter (\<lambda>s. s \<noteq> [])
       (List.map_filter (\<lambda>r. map_option strip (re_search FIELD_DESCRIPTION (description_of r))) subs)"

definition scored :: "json \<Rightarrow> bool" where
  "scored item \<longleftrightarrow> truthy (row_number_of item) \<and> subs_of item \<noteq> []"

definition metric_of :: "json \<Rightarrow> json" where
  "metric_of item =
     metric_record (row_number_of item) (join [32] (sections (subs_of item)))
       (length (sections (subs_of item)))"

text \<open>
  The metric record in the words of the specification: all sub-requirement descriptions
  joined, and the number of sub-requirements.
\<close>

definition spec_metric_of :: "json \<Rightarrow> json" where
  "spec_metric_of item =
     metric_record (row_number_of item) (join [32] (map description_of (subs_of item)))
       (length (subs_of item))"

subsection \<open>get_requirement_from_excel\<close>

text \<open>
  The workbook as the openpyxl calls of the source see it: a sheet has a title,
  \<open>max_row\<close>, \<open>max_column\<close> and a value for every cell (\<open>None\<close> for an empty one); row 1 of
  a sheet is its cells in the columns \<open>1..max_column\<close>. \<open>load_workbook\<close> returns a
  workbook or raises.
\<close>

datatype cell_value = CNone | CStr pystr | CInt int | CBool bool

record sheet =
  title :: pystr
  max_row :: nat
  max_column :: nat
  cell :: "nat \<Rightarrow> nat \<Rightarrow> cell_value"

record workbook =
  sheets :: "(pystr \<times> sheet) list"
  active :: sheet

datatype load_result = Loaded workbook | FileNotFoundError | InvalidFileException | OtherException

definition header_row :: "sheet \<Rightarrow> cell_value list" where
  "header_row sh = map (cell sh 1) [1..<Suc (max_column sh)]"

text \<open>\<open>xs.index(x)\<close>: the first position of an equal element; \<open>None\<close> stands for \<open>ValueError\<close>.\<close>

fun list_index :: "'a list \<Rightarrow> 'a \<Rightarrow> nat option" where
  "list_index [] x = None"
| "list_index (y # ys) x = (if y = x then Some 0 else map_option Suc (list_index ys x))"

text \<open>
  The sheet the function reads: the named one when a non-empty \<open>sheet_name\<close> is given
  (\<open>None\<close> when the workbook has no sheet of that name), the active one otherwise.
\<close>

definition select_sheet :: "workbook \<Rightarrow> pystr option \<Rightarrow> sheet option" where
  "select_sheet wb sheet_name =
     (case sheet_name of
        None \<Rightarrow> Some (active wb)
      | Some n \<Rightarrow> if n = [] then Some (active wb) else map_of (sheets wb) n)"

text \<open>
  \<open>fs\<close> is what \<open>load_workbook\<close> does on a path. Every exception inside the function is
  caught and turned into \<open>None\<close>.
\<close>

definition get_requirement_from_excel ::
  "(pystr \<Rightarrow> load_result) \<Rightarrow> pystr \<Rightarrow> pystr \<Rightarrow> int \<Rightarrow> pystr option \<Rightarrow> pystr option" where
  "get_requirement_from_excel fs file_path column_name row_number sheet_name =
     (case fs file_path of
        Loaded wb \<Rightarrow>
          (case select_sheet wb sheet_name of
             None \<Rightarrow> None
           | Some sh \<Rightarrow>
               (case list_index (header_row sh) (CStr column_name) of
                  None \<Rightarrow> None
                | Some i \<Rightarrow>
                    let col_index = i + 1 in
                    if \<not> (1 \<le> row_number \<and> row_number \<le> int (max_row sh)) then None
                    else
                      (case cell sh (nat row_number) col_index of
                         CStr requirement \<Rightarrow>
                           if requirement \<noteq> [] then Some (strip requirement) else None
                       | _ \<Rightarrow> None)))
      | _ \<Rightarrow> None)"

subsection \<open>process_excel_file\<close>

definition DATA_XLSX :: pystr where
  "DATA_XLSX = lit ''ar_23/data.xlsx''"

text \<open>The two column headers: \<open>L1\<close> and \<open>L2\<close>, each followed by the same four characters.\<close>

definition COLUMN_L1 :: pystr where
  "COLUMN_L1 = [76, 49, 21326, 20026, 26684, 24335]"

definition COLUMN_L2 :: pystr where
  "COLUMN_L2 = [76, 50, 21326, 20026, 26684, 24335]"

fun opt_json :: "pystr option \<Rightarrow> json" where
  "opt_json None = JNull"
| "opt_json (Some s) = JStr s"

text \<open>
  The state of the scan is \<open>(results, descriptions, last_row_num)\<close>; \<open>descriptions\<close> holds
  what \<open>extract_content\<close> returned, a string or \<open>None\<close>. The source reads the fixed path
  and ignores its \<open>file_path\<close> argument.
\<close>

fun process_excel_loop ::
  "(pystr \<Rightarrow> load_result) \<Rightarrow> int list \<Rightarrow> json list \<times> json list \<times> int \<Rightarrow>
   error + json list \<times> json list \<times> int" where
  "process_excel_loop fs [] st = Inr st"
| "process_excel_loop fs (row_num # rows) (results, descriptions, last_row_num) =
     (case (if truthy (opt_json (get_requirement_from_excel fs DATA_XLSX COLUMN_L1 row_num None))
            then (case py_join [32] descriptions of
                    Inl e \<Rightarrow> Inl e
                  | Inr concatenated \<Rightarrow>
                      Inr (results @
                             [metric_record (JInt last_row_num) concatenated (length descriptions)],
                           [], row_num))
            else Inr (results, descriptions, last_row_num)) of
        Inl e \<Rightarrow> Inl e
      | Inr (results', descriptions', last_row_num') \<Rightarrow>
          (case extract_content
                  (opt_json (get_requirement_from_excel fs DATA_XLSX COLUMN_L2 row_num None))
                  FIELD_DESCRIPTION of
             Inl e \<Rightarrow> Inl e
           | Inr d \<Rightarrow>
               process_excel_loop fs rows (results', descriptions' @ [opt_json d], last_row_num')))"

definition process_excel_file :: "(pystr \<Rightarrow> load_result) \<Rightarrow> pystr \<Rightarrow> int \<Rightarrow> error + json list" where
  "process_excel_file fs file_path row_end =
     (case process_excel_loop fs [2..row_end - 1] ([], [], 0) of
        Inl e \<Rightarrow> Inl e
      | Inr (results, descriptions, last_row_num) \<Rightarrow>
          (case py_join [32] descriptions of
             Inl e \<Rightarrow> Inl e
           | Inr concatenated \<Rightarrow>
               Inr (results @
                      [metric_record (JInt last_row_num) concatenated (length descriptions)])))"

text \<open>What the scan reads of a row: whether its L1 cell yields text, and the description
  section of its L2 cell.\<close>

definition has_L1 :: "(pystr \<Rightarrow> load_result) \<Rightarrow> int \<Rightarrow> bool" where
  "has_L1 fs row_num \<longleftrightarrow>
     truthy (opt_json (get_requirement_from_excel fs DATA_XLSX COLUMN_L1 row_num None))"

definition L2_section :: "(pystr \<Rightarrow> load_result) \<Rightarrow> int \<Rightarrow> pystr" where
  "L2_section fs row_num =
     (case get_requirement_from_excel fs DATA_XLSX COLUMN_L2 row_num None of
        None \<Rightarrow> []
      | Some s \<Rightarrow> (case re_search FIELD_DESCRIPTION s of None \<Rightarrow> [] | Some g \<Rightarrow> strip g))"

text \<open>Two records to evaluate on: one whose only description lacks the marker, one
  with a marked and an unmarked description.\<close>

definition example_plain_item :: json where
  "example_plain_item =
     JObj [(lit ''row_number'', JInt 1),
           (lit ''decomposed_list'',
              JArr [JObj [(lit ''id'', JStr (lit ''1'')), (lit ''description'', JStr (lit ''abc''))]])]"

definition example_marked_item :: json where
  "example_marked_item =
     JObj [(lit ''row_number'', JInt 7),
           (lit ''decomposed_list'',
              JArr [JObj [(lit ''id'', JStr (lit ''1'')),
                          (lit ''description'', JStr (marker FIELD_DESCRIPTION @ lit ''A''))],
                    JObj [(lit ''id'', JStr (lit ''2'')), (lit ''description'', JStr (lit ''abc''))]])]"

text \<open>
  A workbook to evaluate on: one sheet, the two headers in row 1, a description in the L2
  column of rows 2 and 3, and text in the L1 column of row 3 only.
\<close>

definition example_sheet :: sheet where
  "example_sheet =
     \<lparr>title = lit ''Sheet1'', max_row = 3, max_column = 2,
      cell = (\<lambda>r c.
        if r = 1 \<and> c = 1 then CStr COLUMN_L1
        else if r = 1 \<and> c = 2 then CStr COLUMN_L2
        else if r = 2 \<and> c = 2 then CStr (marker FIELD_DESCRIPTION @ lit ''A'')
        else if r = 3 \<and> c = 1 then CStr (lit '' X '')
        else if r = 3 \<and> c = 2 then CStr (marker FIELD_DESCRIPTION @ lit ''B'')
        else CNone)\<rparr>"

definition example_fs :: "pystr \<Rightarrow> load_result" where
  "example_fs p =
     (if p = DATA_XLSX
      then Loaded \<lparr>sheets = [(lit ''Sheet1'', example_sheet)], active = example_sheet\<rparr>
      else FileNotFoundError)"

text \<open>The L2 cell of a row, as the scan reads it.\<close>

abbreviation (input) L2_cell :: "(pystr \<Rightarrow> load_result) \<Rightarrow> int \<Rightarrow> pystr option" where
  "L2_cell fs r \<equiv> get_requirement_from_excel fs DATA_XLSX COLUMN_L2 r None"

section \<open>The decomposer (requirement_decomposer.py)\<close>

subsection \<open>The environment\<close>

text \<open>
  What \<open>client.chat.completions.create\<close> does: it returns a response whose message
  content is a string or \<open>None\<close>, or raises one of the exceptions \<open>_call_llm_api\<close> catches.
\<close>

datatype api_outcome =
    Completed "pystr option"
  | APIConnectionError
  | RateLimitError
  | AuthenticationError
  | APIStatusError
  | OtherError

text \<open>
  What \<open>json.loads\<close> does with a text: it returns the value, or raises \<open>JSONDecodeError\<close>
  for a text that is not JSON, or raises another exception: \<open>RecursionError\<close> when arrays
  and objects are nested deeper than the recursion limit allows, \<open>ValueError\<close> when an
  integer literal has more digits than \<open>sys.get_int_max_str_digits()\<close>.
\<close>

datatype loads_outcome =
    Returned json
  | Raised_JSONDecodeError
  | Raised error

text \<open>
  Everything outside the program: the API key of the process environment, the endpoint
  (its outcome may depend on how many requests were sent before and on the two
  messages), \<open>json.loads\<close>, and standard output (the texts it can encode; \<open>print\<close> raises
  \<open>UnicodeEncodeError\<close> on any other). The long text constants of the source (the system
  prompts, the seven decomposition rules, the evaluation prompt template, \<open>str\<close> of a value
  that is not a string) are fields as well: the functions below only pass these texts
  on.
\<close>

record env =
  api_key :: "pystr option"
  chat_completion :: "nat \<Rightarrow> pystr \<Rightarrow> pystr \<Rightarrow> api_outcome"
  json_loads :: "pystr \<Rightarrow> loads_outcome"
  stdout_accepts :: "pystr \<Rightarrow> bool"
  system_prompt :: pystr
  decomposition_rules :: "pystr list"
  evaluation_system_prompt :: pystr
  evaluation_user_prompt_template :: "pystr \<Rightarrow> pystr \<Rightarrow> pystr"
  py_repr :: "json \<Rightarrow> pystr"

type_synonym requests = "(pystr \<times> pystr) list"

text \<open>\<open>str\<close> of a value inside an f-string or \<open>str.format\<close>: a string stands for itself.\<close>

definition format_value :: "env \<Rightarrow> json \<Rightarrow> pystr" where
  "format_value e v = (case v of JStr s \<Rightarrow> s | _ \<Rightarrow> py_repr e v)"

text \<open>
  \<open>print(text)\<close> writes the text and a line feed. The messages modelled are those that
  show a response of the endpoint or the value parsed from it: whether they can be
  written depends on the response. The other messages of the program are fixed texts,
  some with the ASCII text of an exception, a row number or a file name; standard output
  is taken to accept them.
\<close>

definition print_raises :: "env \<Rightarrow> pystr \<Rightarrow> bool" where
  "print_raises e message \<longleftrightarrow> \<not> stdout_accepts e (message @ [10])"

subsection \<open>load_requirements_from_json\<close>

fun requirement_item :: "json \<Rightarrow> bool" where
  "requirement_item (JObj kvs) \<longleftrightarrow>
     lit ''row'' \<in> set (map fst kvs) \<and> lit ''req'' \<in> set (map fst kvs)"
| "requirement_item _ \<longleftrightarrow> False"

text \<open>
  The argument \<open>file\<close> is the parsed content of the file, \<open>None\<close> when the file is missing
  or is not JSON (each exception is caught and gives \<open>None\<close>).
\<close>

definition load_requirements_from_json :: "json option \<Rightarrow> int option \<Rightarrow> json list option" where
  "load_requirements_from_json file limit =
     (case file of
        Some (JArr data) \<Rightarrow>
          if list_all requirement_item data then
            (case limit of
               Some n \<Rightarrow> if n > 0 then Some (take (nat n) data) else Some data
             | None \<Rightarrow> Some data)
          else None
      | _ \<Rightarrow> None)"

subsection \<open>The prompts\<close>

text \<open>The four fixed lines of the user prompt, by code points; the headers start with a
  line feed and read \<open>=== ... ===\<close>.\<close>

definition PROMPT_HEAD :: pystr where
  "PROMPT_HEAD = [26681, 25454, 24050, 23450, 20041, 30340, 35268, 21017, 65292, 20998,
     35299, 20197, 19979, 21407, 22987, 38656, 27714, 12290]"

definition RULES_HEADER :: pystr where
  "RULES_HEADER = [10, 61, 61, 61, 32, 20998, 35299, 35268, 21017, 32, 61, 61, 61]"

definition REQUIREMENT_HEADER :: pystr where
  "REQUIREMENT_HEADER = [10, 61, 61, 61, 32, 21407, 22987, 38656, 27714, 32, 61, 61, 61]"

definition EXTRA_HEADER :: pystr where
  "EXTRA_HEADER = [10, 61, 61, 61, 32, 39069, 22806, 36755, 20986, 35201, 27714, 32, 61, 61, 61]"

text \<open>\<open>str(i)\<close> for the rule numbers.\<close>

fun str_of_nat :: "nat \<Rightarrow> pystr" where
  "str_of_nat n = (if n < 10 then [48 + n] else str_of_nat (n div 10) @ [48 + n mod 10])"

fun numbered_rules :: "nat \<Rightarrow> pystr list \<Rightarrow> json list" where
  "numbered_rules i [] = []"
| "numbered_rules i (rule # rules) =
     JStr (str_of_nat i @ lit ''. '' @ rule) # numbered_rules (Suc i) rules"

text \<open>
  \<open>_build_user_prompt\<close>: the parts are joined by a line feed. The requirement is what the
  caller read from the input file; joining raises \<open>TypeError\<close> when it is not a string.
\<close>

definition build_user_prompt :: "json \<Rightarrow> pystr list option \<Rightarrow> pystr option \<Rightarrow> error + pystr" where
  "build_user_prompt original_requirement rules output_format_instruction =
     py_join [10]
       ([JStr PROMPT_HEAD] @
        (case rules of
           None \<Rightarrow> []
         | Some rs \<Rightarrow> if rs \<noteq> [] then JStr RULES_HEADER # numbered_rules 1 rs else []) @
        [JStr REQUIREMENT_HEADER, original_requirement] @
        (case output_format_instruction of
           None \<Rightarrow> []
         | Some f \<Rightarrow> if f \<noteq> [] then [JStr EXTRA_HEADER, JStr f] else []))"

subsection \<open>_call_llm_api and decompose_requirement\<close>

text \<open>
  \<open>_call_llm_api\<close> threads the list of requests sent so far. Without an API key it returns
  \<open>None\<close> and sends nothing; otherwise it sends one request and returns the content of
  the response, or \<open>None\<close> when the request raised.
\<close>

definition call_llm_api :: "env \<Rightarrow> requests \<Rightarrow> pystr \<Rightarrow> pystr \<Rightarrow> pystr option \<times> requests" where
  "call_llm_api e sent system user =
     (case api_key e of
        None \<Rightarrow> (None, sent)
      | Some k \<Rightarrow>
          if k = [] then (None, sent)
          else
            (case chat_completion e (length sent) system user of
               Completed content \<Rightarrow> (content, sent @ [(system, user)])
             | _ \<Rightarrow> (None, sent @ [(system, user)])))"

text \<open>
  The two messages of \<open>decompose_requirement\<close> that show the parsed value and the
  response: \<open>[ERROR] LLM...JSON...: \<close> and the label of the original response, each
  ending in a colon and a space.
\<close>

definition NOT_AN_ARRAY_MESSAGE :: pystr where
  "NOT_AN_ARRAY_MESSAGE =
     [91, 69, 82, 82, 79, 82, 93, 32, 76, 76, 77, 36820, 22238, 30340, 19981, 26159, 19968,
      20010, 26377, 25928, 30340, 74, 83, 79, 78, 25968, 32452, 58, 32]"

definition ORIGINAL_RESPONSE_MESSAGE :: pystr where
  "ORIGINAL_RESPONSE_MESSAGE = [21407, 22987, 21709, 24212, 20869, 23481, 58, 32]"

text \<open>
  \<open>decompose_requirement\<close>. The \<open>try\<close> block has the one handler
  \<open>except json.JSONDecodeError\<close>: any other exception of \<open>json.loads\<close> leaves the function,
  and so does the \<open>UnicodeEncodeError\<close> of a \<open>print\<close>, in the block or in the handler. The
  first message of the handler is a fixed text followed by the ASCII text of the
  exception.
\<close>

definition decompose_requirement ::
  "env \<Rightarrow> requests \<Rightarrow> json \<Rightarrow> pystr list option \<Rightarrow> pystr option \<Rightarrow>
   error + json list option \<times> requests" where
  "decompose_requirement e sent original_requirement rules output_format_instruction =
     (case build_user_prompt original_requirement rules output_format_instruction of
        Inl err \<Rightarrow> Inl err
      | Inr user_prompt \<Rightarrow>
          (case call_llm_api e sent (system_prompt e) user_prompt of
             (llm_response_str, sent') \<Rightarrow>
               (case llm_response_str of
                  None \<Rightarrow> Inr (None, sent')
                | Some s \<Rightarrow>
                    if s = [] then Inr (None, sent')
                    else
                      (case json_loads e s of
                         Returned (JArr sub_requirements_list) \<Rightarrow>
                           Inr (Some sub_requirements_list, sent')
                       | Returned v \<Rightarrow>
                           if print_raises e (NOT_AN_ARRAY_MESSAGE @ format_value e v @ [10])
                           then Inl UnicodeEncodeError
                           else Inr (None, sent')
                       | Raised_JSONDecodeError \<Rightarrow>
                           if print_raises e (ORIGINAL_RESPONSE_MESSAGE @ s @ [10])
                           then Inl UnicodeEncodeError
                           else Inr (None, sent')
                       | Raised err \<Rightarrow> Inl err))))"

subsection \<open>main\<close>

definition result_record :: "json \<Rightarrow> json list \<Rightarrow> json" where
  "result_record row_num decomposed_list =
     JObj [(lit ''row_number'', row_num), (lit ''decomposed_list'', JArr decomposed_list)]"

text \<open>The loop of \<open>main\<close>; its state is \<open>all_decomposed_results\<close> and the requests sent.\<close>

fun main_loop :: "env \<Rightarrow> json list \<Rightarrow> json list \<times> requests \<Rightarrow> error + json list \<times> requests" where
  "main_loop e [] st = Inr st"
| "main_loop e (req_item # rest) (all_decomposed_results, sent) =
     (case py_get req_item (lit ''row'') of
        Inl err \<Rightarrow> Inl err
      | Inr row_num \<Rightarrow>
          (case py_get req_item (lit ''req'') of
             Inl err \<Rightarrow> Inl err
           | Inr main_requirement \<Rightarrow>
               if \<not> truthy row_num \<or> \<not> truthy main_requirement
               then main_loop e rest (all_decomposed_results, sent)
               else
                 (case decompose_requirement e sent main_requirement
                         (Some (decomposition_rules e)) None of
                    Inl err \<Rightarrow> Inl err
                  | Inr (None, sent') \<Rightarrow> main_loop e rest (all_decomposed_results, sent')
                  | Inr (Some decomposed_list, sent') \<Rightarrow>
                      if decomposed_list \<noteq> []
                      then main_loop e rest
                             (all_decomposed_results @ [result_record row_num decomposed_list], sent')
                      else main_loop e rest (all_decomposed_results, sent'))))"

text \<open>
  What a run of \<open>main\<close> leaves: the accumulated list, the content of the output file when
  one was written (as the value \<open>json.dump\<close> was given), and the requests sent. An
  exception that leaves \<open>main\<close> is \<open>Inl\<close>: then nothing was written.
\<close>

record outcome =
  all_decomposed_results :: "json list"
  written :: "json option"
  sent_requests :: requests

definition main :: "env \<Rightarrow> json option \<Rightarrow> error + outcome" where
  "main e file =
     (case load_requirements_from_json file None of
        None \<Rightarrow> Inr \<lparr>all_decomposed_results = [], written = None, sent_requests = []\<rparr>
      | Some all_original_requirements \<Rightarrow>
          if all_original_requirements = []
          then Inr \<lparr>all_decomposed_results = [], written = None, sent_requests = []\<rparr>
          else
            (case main_loop e all_original_requirements ([], []) of
               Inl err \<Rightarrow> Inl err
             | Inr (results, sent) \<Rightarrow>
                 Inr \<lparr>all_decomposed_results = results,
                      written = (if results \<noteq> [] then Some (JArr results) else None),
                      sent_requests = sent\<rparr>))"

text \<open>The records of the output file of a run: none when no file was written.\<close>

definition output_records :: "error + outcome \<Rightarrow> json list" where
  "output_records r =
     (case r of
        Inl err \<Rightarrow> []
      | Inr out \<Rightarrow> (case written out of Some (JArr records) \<Rightarrow> records | _ \<Rightarrow> []))"

text \<open>The items of an input file, and the \<open>row\<close> and \<open>req\<close> of an item.\<close>

definition input_items :: "json option \<Rightarrow> json list" where
  "input_items file = (case file of Some (JArr data) \<Rightarrow> data | _ \<Rightarrow> [])"

fun row_of :: "json \<Rightarrow> json" where
  "row_of (JObj kvs) = dict_get kvs (lit ''row'')"
| "row_of _ = JNull"

fun req_of :: "json \<Rightarrow> json" where
  "req_of (JObj kvs) = dict_get kvs (lit ''req'')"
| "req_of _ = JNull"

section \<open>The evaluator (evaluater.py)\<close>





section \<open>The metrics script (tools/metrics.py)\<close>

text \<open>
  The alignment of the script: the two maps are dicts (association lists in insertion
  order, \<open>map_of\<close> the lookup), the state is the three lists the loop appends to. The
  loop has no \<open>else\<close> branch and prints nothing; after it the script prints one line.
\<close>

datatype stdout_line = No_pairs_aligned | Pairs_aligned nat

fun align_loop ::
  "('k \<times> 'v) list \<Rightarrow> ('k \<times> 'v) list \<Rightarrow> 'v list \<times> 'v list \<times> 'k list \<Rightarrow> 'v list \<times> 'v list \<times> 'k list" where
  "align_loop [] references_map st = st"
| "align_loop ((row, pred_text) # items) references_map (predictions_raw, references_raw, rows) =
     (case map_of references_map row of
        Some ref_text \<Rightarrow>
          align_loop items references_map
            (predictions_raw @ [pred_text], references_raw @ [ref_text], rows @ [row])
      | None \<Rightarrow> align_loop items references_map (predictions_raw, references_raw, rows))"

record ('k, 'v) alignment =
  predictions_raw :: "'v list"
  references_raw :: "'v list"
  rows :: "'k list"
  printed :: "stdout_line list"

definition align :: "('k \<times> 'v) list \<Rightarrow> ('k \<times> 'v) list \<Rightarrow> ('k, 'v) alignment" where
  "align predictions_map references_map =
     (case align_loop predictions_map references_map ([], [], []) of
        (ps, rs, ks) \<Rightarrow>
          \<lparr>predictions_raw = ps, references_raw = rs, rows = ks,
           printed = [if ps = [] then No_pairs_aligned else Pairs_aligned (length ps)]\<rparr>)"

text \<open>The example of the specification: predictions for rows 1 and 2, references for rows
  2 and 3.\<close>

definition example_predictions :: "(int \<times> pystr) list" where
  "example_predictions = [(1, lit ''a''), (2, lit ''b'')]"

definition example_references :: "(int \<times> pystr) list" where
  "example_references = [(2, lit ''x''), (3, lit ''y'')]"

text \<open>The rows that are keys of only one of the two maps.\<close>

definition only_one_side :: "('k \<times> 'v) list \<Rightarrow> ('k \<times> 'v) list \<Rightarrow> 'k list" where
  "only_one_side predictions_map references_map =
     filter (\<lambda>k. k \<notin> set (map fst references_map)) (map fst predictions_map) @
     filter (\<lambda>k. k \<notin> set (map fst predictions_map)) (map fst references_map)"

section \<open>Writing and reading the result file\<close>

text \<open>
  \<open>save_results_to_json\<close> is a call of \<open>json.dump\<close> and \<open>load_decomposed_results\<close> a call of
  \<open>json.load\<close>: this section models the encoder and the decoder of Python's standard
  library, with the two limits of the interpreter that make them raise:
  \<open>sys.get_int_max_str_digits()\<close>, the number of digits beyond which the conversion
  between \<open>int\<close> and \<open>str\<close> raises \<open>ValueError\<close> (4300 unless it was changed; 0 is no
  limit, and an interpreter without the limit has 0), and the number of arrays and
  objects that can be open inside one another before the recursion limit is reached
  (\<open>RecursionError\<close>), which depends on the recursion limit and on the depth of the call.
\<close>

record interpreter =
  int_max_str_digits :: nat
  json_depth :: nat

definition too_many_digits :: "interpreter \<Rightarrow> nat \<Rightarrow> bool" where
  "too_many_digits I n \<longleftrightarrow> 0 < int_max_str_digits I \<and> int_max_str_digits I < n"

subsection \<open>json.dump with indent=2 and ensure_ascii=False\<close>

text \<open>
  The encoder of the standard library, for the values of type \<open>json\<close>. A string is put
  between double quotes; the quote, the backslash and the characters below U+0020 are
  escaped, every other character stands for itself.
\<close>

definition hex_digit :: "nat \<Rightarrow> nat" where
  "hex_digit d = (if d < 10 then 48 + d else 87 + d)"

definition escape_char :: "nat \<Rightarrow> pystr" where
  "escape_char c =
     (if c = 34 then [92, 34]
      else if c = 92 then [92, 92]
      else if c = 8 then [92, 98]
      else if c = 12 then [92, 102]
      else if c = 10 then [92, 110]
      else if c = 13 then [92, 114]
      else if c = 9 then [92, 116]
      else if c < 32 then [92, 117, 48, 48, hex_digit (c div 16), hex_digit (c mod 16)]
      else [c])"

definition encode_basestring :: "pystr \<Rightarrow> pystr" where
  "encode_basestring s = 34 # concat (map escape_char s) @ [34]"

definition str_of_int :: "int \<Rightarrow> pystr" where
  "str_of_int i = (if i < 0 then 45 # str_of_nat (nat (- i)) else str_of_nat (nat i))"

text \<open>A line feed and two spaces for each level of nesting.\<close>

definition newline_indent :: "nat \<Rightarrow> pystr" where
  "newline_indent level = 10 # replicate (2 * level) 32"

text \<open>
  The text of a value at a nesting level. An empty list and an empty dict are written
  without a line break; the items of the others are separated by a comma and a line
  break, a key and its value by a colon and a space.
\<close>

fun iterencode :: "nat \<Rightarrow> json \<Rightarrow> pystr" where
  "iterencode level JNull = lit ''null''"
| "iterencode level (JBool b) = (if b then lit ''true'' else lit ''false'')"
| "iterencode level (JInt i) = str_of_int i"
| "iterencode level (JStr s) = encode_basestring s"
| "iterencode level (JArr xs) =
     (if xs = [] then lit ''[]''
      else [91] @ newline_indent (Suc level) @
           join (44 # newline_indent (Suc level)) (map (iterencode (Suc level)) xs) @
           newline_indent level @ [93])"
| "iterencode level (JObj kvs) =
     (if kvs = [] then lit ''{}''
      else [123] @ newline_indent (Suc level) @
           join (44 # newline_indent (Suc level))
             (map (\<lambda>kv. encode_basestring (fst kv) @ lit '': '' @ iterencode (Suc level) (snd kv)) kvs) @
           newline_indent level @ [125])"

definition json_dumps :: "json \<Rightarrow> pystr" where
  "json_dumps v = iterencode 0 v"

text \<open>
  The file is opened with \<open>encoding='utf-8'\<close>: writing a text that holds a surrogate code
  point (U+D800 to U+DFFF) raises \<open>UnicodeEncodeError\<close>.
\<close>

definition utf8_encodable :: "pystr \<Rightarrow> bool" where
  "utf8_encodable s \<longleftrightarrow> list_all (\<lambda>c. c < 55296 \<or> (57343 < c \<and> c < 1114112)) s"

text \<open>
  \<open>json.dump\<close> writes the text piece by piece, in the order of the document; the first
  piece that cannot be made or written ends the call with an exception: an integer
  with too many digits (\<open>ValueError\<close>), a string or a key with a surrogate
  (\<open>UnicodeEncodeError\<close>), a list or a dict opened at a depth the interpreter does not
  reach (\<open>RecursionError\<close>). \<open>dump_error\<close> gives that exception for a value at a nesting
  depth, \<open>None\<close> when the whole text is written.
\<close>

fun first_error :: "error option list \<Rightarrow> error option" where
  "first_error [] = None"
| "first_error (None # es) = first_error es"
| "first_error (Some err # es) = Some err"

definition decimal_digits :: "int \<Rightarrow> nat" where
  "decimal_digits i = length (str_of_nat (nat \<bar>i\<bar>))"

fun dump_error :: "interpreter \<Rightarrow> nat \<Rightarrow> json \<Rightarrow> error option" where
  "dump_error I depth JNull = None"
| "dump_error I depth (JBool b) = None"
| "dump_error I depth (JInt i) =
     (if too_many_digits I (decimal_digits i) then Some ValueError else None)"
| "dump_error I depth (JStr s) = (if utf8_encodable s then None else Some UnicodeEncodeError)"
| "dump_error I depth (JArr xs) =
     (if json_depth I \<le> depth then Some RecursionError
      else first_error (map (dump_error I (Suc depth)) xs))"
| "dump_error I depth (JObj kvs) =
     (if json_depth I \<le> depth then Some RecursionError
      else first_error
             (map (\<lambda>kv. if utf8_encodable (fst kv) then dump_error I (Suc depth) (snd kv)
                        else Some UnicodeEncodeError) kvs))"

text \<open>
  \<open>save_results_to_json\<close>: the text of the file after the call, or the exception that the
  function caught (and reported) while writing; then the file does not hold the document.
  The file itself is taken to be writable.
\<close>

definition save_results_to_json :: "interpreter \<Rightarrow> json list \<Rightarrow> error + pystr" where
  "save_results_to_json I results =
     (case dump_error I 0 (JArr results) of
        Some err \<Rightarrow> Inl err
      | None \<Rightarrow> Inr (json_dumps (JArr results)))"

subsection \<open>json.load\<close>

text \<open>
  The decoder of the standard library. A number with a fraction or an exponent, \<open>NaN\<close> and
  \<open>Infinity\<close> are floats: the scanner below recognises them and stops with
  \<open>Float_literal\<close>, since floats are outside this development. The scanner takes fuel,
  one unit for every value and every item it goes through; \<open>json_loads_text\<close> gives it
  more than the length of the document.
\<close>

datatype decode_failure = JSONDecodeError | Raised_error error | Float_literal | Out_of_fuel

definition is_ws :: "nat \<Rightarrow> bool" where
  "is_ws c \<longleftrightarrow> c = 32 \<or> c = 9 \<or> c = 10 \<or> c = 13"

definition skip_ws :: "pystr \<Rightarrow> pystr" where
  "skip_ws s = dropWhile is_ws s"

definition is_digit :: "nat \<Rightarrow> bool" where
  "is_digit c \<longleftrightarrow> 48 \<le> c \<and> c \<le> 57"

definition hex_value :: "nat \<Rightarrow> nat option" where
  "hex_value c =
     (if 48 \<le> c \<and> c \<le> 57 then Some (c - 48)
      else if 97 \<le> c \<and> c \<le> 102 then Some (c - 87)
      else if 65 \<le> c \<and> c \<le> 70 then Some (c - 55)
      else None)"

text \<open>The four hexadecimal digits after \<^verbatim>\<open>\u\<close>.\<close>

fun decode_uXXXX :: "pystr \<Rightarrow> nat option" where
  "decode_uXXXX (a # b # c # d # rest) =
     (case (hex_value a, hex_value b, hex_value c, hex_value d) of
        (Some x, Some y, Some z, Some w) \<Rightarrow> Some (((x * 16 + y) * 16 + z) * 16 + w)
      | _ \<Rightarrow> None)"
| "decode_uXXXX _ = None"

definition unescape :: "nat \<Rightarrow> nat option" where
  "unescape esc =
     (if esc = 34 then Some 34
      else if esc = 92 then Some 92
      else if esc = 47 then Some 47
      else if esc = 98 then Some 8
      else if esc = 102 then Some 12
      else if esc = 110 then Some 10
      else if esc = 114 then Some 13
      else if esc = 116 then Some 9
      else None)"

text \<open>
  \<open>scanstring\<close> on the text after the opening quote: the string and the text after the
  closing quote. A raw character below U+0020 is an error (strict mode); a high
  surrogate escape followed by a low surrogate escape is one character.
\<close>

function scanstring :: "pystr \<Rightarrow> (pystr \<times> pystr) option" where
  "scanstring [] = None"
| "scanstring (c # cs) =
     (if c = 34 then Some ([], cs)
      else if c = 92 then
        (case cs of
           [] \<Rightarrow> None
         | esc # r \<Rightarrow>
             if esc = 117 then
               (case decode_uXXXX r of
                  None \<Rightarrow> None
                | Some uni \<Rightarrow>
                    if 55296 \<le> uni \<and> uni \<le> 56319 \<and> prefix [92, 117] (drop 4 r) then
                      (case decode_uXXXX (drop 6 r) of
                         None \<Rightarrow> None
                       | Some uni2 \<Rightarrow>
                           if 56320 \<le> uni2 \<and> uni2 \<le> 57343
                           then map_option (\<lambda>(s, rest).
                                  ((65536 + ((uni - 55296) * 1024 + (uni2 - 56320))) # s, rest))
                                  (scanstring (drop 10 r))
                           else map_option (\<lambda>(s, rest). (uni # s, rest)) (scanstring (drop 4 r)))
                    else map_option (\<lambda>(s, rest). (uni # s, rest)) (scanstring (drop 4 r)))
             else
               (case unescape esc of
                  None \<Rightarrow> None
                | Some ch \<Rightarrow> map_option (\<lambda>(s, rest). (ch # s, rest)) (scanstring r)))
      else if c < 32 then None
      else map_option (\<lambda>(s, rest). (c # s, rest)) (scanstring cs))"
  by pat_completeness auto
termination
  by (relation "measure length") auto

text \<open>The value of a run of decimal digits.\<close>

definition nat_of_digits :: "pystr \<Rightarrow> nat" where
  "nat_of_digits ds = foldl (\<lambda>a d. 10 * a + (d - 48)) 0 ds"

text \<open>
  The number pattern: an optional minus sign, then \<open>0\<close> or a digit from 1 to 9 followed
  by digits; a fraction (a point and a digit) or an exponent after it makes a float.
\<close>

definition float_tail :: "pystr \<Rightarrow> bool" where
  "float_tail s \<longleftrightarrow>
     (case s of
        c # d # r \<Rightarrow>
          (c = 46 \<and> is_digit d) \<or>
          ((c = 101 \<or> c = 69) \<and>
             (is_digit d \<or> ((d = 43 \<or> d = 45) \<and> (case r of x # _ \<Rightarrow> is_digit x | [] \<Rightarrow> False))))
      | _ \<Rightarrow> False)"

definition match_integer :: "pystr \<Rightarrow> (pystr \<times> pystr) option" where
  "match_integer s =
     (case s of
        [] \<Rightarrow> None
      | d # r \<Rightarrow>
          if d = 48 then Some ([48], r)
          else if 49 \<le> d \<and> d \<le> 57 then Some (d # takeWhile is_digit r, dropWhile is_digit r)
          else None)"

definition scan_number :: "interpreter \<Rightarrow> pystr \<Rightarrow> decode_failure + json \<times> pystr" where
  "scan_number I s =
     (case (case s of c # r \<Rightarrow> if c = 45 then (True, r) else (False, s) | [] \<Rightarrow> (False, s)) of
        (negative, s1) \<Rightarrow>
          (case match_integer s1 of
             Some (ds, rest) \<Rightarrow>
               if float_tail rest then Inl Float_literal
               else if too_many_digits I (length ds) then Inl (Raised_error ValueError)
               else Inr (JInt (if negative then - int (nat_of_digits ds) else int (nat_of_digits ds)),
                         rest)
           | None \<Rightarrow>
               if prefix (lit ''NaN'') s \<or> prefix (lit ''Infinity'') s \<or> prefix (lit ''-Infinity'') s
               then Inl Float_literal
               else Inl JSONDecodeError))"

text \<open>\<open>dict(pairs)\<close>: a later value of a key replaces the earlier one, in its place.\<close>

definition dict_set :: "(pystr \<times> json) list \<Rightarrow> pystr \<Rightarrow> json \<Rightarrow> (pystr \<times> json) list" where
  "dict_set kvs k v =
     (if k \<in> set (map fst kvs) then map (\<lambda>kv. if fst kv = k then (k, v) else kv) kvs
      else kvs @ [(k, v)])"

text \<open>
  \<open>scan_once\<close> scans one value; \<open>depth\<close> is the number of arrays and objects that are open
  around it, and an opening bracket at a depth the interpreter does not reach raises
  \<open>RecursionError\<close>. \<open>array_items\<close> and \<open>object_items\<close> are the loops of \<open>JSONArray\<close> and
  \<open>JSONObject\<close>, entered after the opening bracket and the whitespace behind it when the
  array or the object is not empty.
\<close>

fun scan_once :: "interpreter \<Rightarrow> nat \<Rightarrow> nat \<Rightarrow> pystr \<Rightarrow> decode_failure + json \<times> pystr"
  and array_items ::
    "interpreter \<Rightarrow> nat \<Rightarrow> nat \<Rightarrow> pystr \<Rightarrow> json list \<Rightarrow> decode_failure + json \<times> pystr"
  and object_items ::
    "interpreter \<Rightarrow> nat \<Rightarrow> nat \<Rightarrow> pystr \<Rightarrow> (pystr \<times> json) list \<Rightarrow>
     decode_failure + json \<times> pystr" where
  "scan_once I 0 depth s = Inl Out_of_fuel"
| "scan_once I (Suc n) depth s =
     (case s of
        [] \<Rightarrow> Inl JSONDecodeError
      | c # cs \<Rightarrow>
          if c = 34 then
            (case scanstring cs of
               None \<Rightarrow> Inl JSONDecodeError
             | Some (str, rest) \<Rightarrow> Inr (JStr str, rest))
          else if c = 123 then
            (if json_depth I \<le> depth then Inl (Raised_error RecursionError)
             else
               (case skip_ws cs of
                  [] \<Rightarrow> Inl JSONDecodeError
                | d # ds \<Rightarrow>
                    if d = 125 then Inr (JObj [], ds)
                    else if d = 34 then object_items I n (Suc depth) (d # ds) []
                    else Inl JSONDecodeError))
          else if c = 91 then
            (if json_depth I \<le> depth then Inl (Raised_error RecursionError)
             else
               (case skip_ws cs of
                  [] \<Rightarrow> Inl JSONDecodeError
                | d # ds \<Rightarrow>
                    if d = 93 then Inr (JArr [], ds) else array_items I n (Suc depth) (d # ds) []))
          else if prefix (lit ''null'') s then Inr (JNull, drop 4 s)
          else if prefix (lit ''true'') s then Inr (JBool True, drop 4 s)
          else if prefix (lit ''false'') s then Inr (JBool False, drop 5 s)
          else scan_number I s)"
| "array_items I 0 depth s acc = Inl Out_of_fuel"
| "array_items I (Suc n) depth s acc =
     (case scan_once I n depth s of
        Inl e \<Rightarrow> Inl e
      | Inr (value, rest) \<Rightarrow>
          (case skip_ws rest of
             [] \<Rightarrow> Inl JSONDecodeError
           | d # ds \<Rightarrow>
               if d = 93 then Inr (JArr (acc @ [value]), ds)
               else if d = 44 then array_items I n depth (skip_ws ds) (acc @ [value])
               else Inl JSONDecodeError))"
| "object_items I 0 depth s acc = Inl Out_of_fuel"
| "object_items I (Suc n) depth s acc =
     (case s of
        [] \<Rightarrow> Inl JSONDecodeError
      | q # cs \<Rightarrow>
          if q \<noteq> 34 then Inl JSONDecodeError
          else
            (case scanstring cs of
               None \<Rightarrow> Inl JSONDecodeError
             | Some (key, rest) \<Rightarrow>
                 (case skip_ws rest of
                    [] \<Rightarrow> Inl JSONDecodeError
                  | colon # after \<Rightarrow>
                      if colon \<noteq> 58 then Inl JSONDecodeError
                      else
                        (case scan_once I n depth (skip_ws after) of
                           Inl e \<Rightarrow> Inl e
                         | Inr (value, rest') \<Rightarrow>
                             (case skip_ws rest' of
                                [] \<Rightarrow> Inl JSONDecodeError
                              | d # ds \<Rightarrow>
                                  if d = 125 then Inr (JObj (dict_set acc key value), ds)
                                  else if d = 44
                                  then object_items I n depth (skip_ws ds) (dict_set acc key value)
                                  else Inl JSONDecodeError)))))"

text \<open>\<open>json.loads\<close>: whitespace, one value, whitespace, and nothing after it.\<close>

definition json_loads_text :: "interpreter \<Rightarrow> pystr \<Rightarrow> decode_failure + json" where
  "json_loads_text I s =
     (case scan_once I (Suc (length s)) 0 (skip_ws s) of
        Inl e \<Rightarrow> Inl e
      | Inr (v, rest) \<Rightarrow> if skip_ws rest = [] then Inr v else Inl JSONDecodeError)"

text \<open>
  \<open>load_decomposed_results\<close> on the text of the file (\<open>None\<close> when there is no file): the
  parsed content, or \<open>None\<close> for a missing file and for a text that is not JSON (and for
  the text \<open>null\<close>, which is \<open>None\<close>). The function catches \<open>FileNotFoundError\<close> and
  \<open>JSONDecodeError\<close>; another exception of \<open>json.load\<close> leaves it.
\<close>

definition load_decomposed_results ::
  "interpreter \<Rightarrow> pystr option \<Rightarrow> decode_failure + json option" where
  "load_decomposed_results I file =
     (case file of
        None \<Rightarrow> Inr None
      | Some s \<Rightarrow>
          (case json_loads_text I s of
             Inr v \<Rightarrow> Inr (if v = JNull then None else Some v)
           | Inl JSONDecodeError \<Rightarrow> Inr None
           | Inl e \<Rightarrow> Inl e))"

text \<open>A value is well formed when the keys of each of its dicts are distinct.\<close>

fun wf_json :: "json \<Rightarrow> bool" where
  "wf_json (JArr xs) \<longleftrightarrow> list_all wf_json xs"
| "wf_json (JObj kvs) \<longleftrightarrow> distinct (map fst kvs) \<and> list_all (\<lambda>kv. wf_json (snd kv)) kvs"
| "wf_json _ \<longleftrightarrow> True"

text \<open>
  What a value must be like for an interpreter to write and to read it: no string and
  no key holds a surrogate, no integer has more digits than the limit, and the nesting
  is within the depth the interpreter reaches.
\<close>

fun strings_encodable :: "json \<Rightarrow> bool" where
  "strings_encodable (JStr s) \<longleftrightarrow> utf8_encodable s"
| "strings_encodable (JArr xs) \<longleftrightarrow> list_all strings_encodable xs"
| "strings_encodable (JObj kvs) \<longleftrightarrow>
     list_all (\<lambda>kv. utf8_encodable (fst kv) \<and> strings_encodable (snd kv)) kvs"
| "strings_encodable _ \<longleftrightarrow> True"

fun integers_within :: "interpreter \<Rightarrow> json \<Rightarrow> bool" where
  "integers_within I (JInt i) \<longleftrightarrow> \<not> too_many_digits I (decimal_digits i)"
| "integers_within I (JArr xs) \<longleftrightarrow> list_all (integers_within I) xs"
| "integers_within I (JObj kvs) \<longleftrightarrow> list_all (\<lambda>kv. integers_within I (snd kv)) kvs"
| "integers_within I _ \<longleftrightarrow> True"

fun nesting :: "json \<Rightarrow> nat" where
  "nesting (JArr xs) = Suc (foldr max (map nesting xs) 0)"
| "nesting (JObj kvs) = Suc (foldr max (map (\<lambda>kv. nesting (snd kv)) kvs) 0)"
| "nesting _ = 0"

section \<open>Examples\<close>

text \<open>
  An interpreter with the digit limit every Python has unless it was changed, and with
  room for five hundred nested arrays and objects.
\<close>

definition example_interpreter :: interpreter where
  "example_interpreter = \<lparr>int_max_str_digits = 4300, json_depth = 500\<rparr>"

text \<open>
  An environment to evaluate on. The endpoint answers the first request with the
  well-formed response of the specification's example (an array of two sub-requirements
  with the ids 1 and 2) and fails on every later request. Its \<open>json.loads\<close> is the
  decoder above on that interpreter (the documents of the examples hold no float and
  none exhausts the fuel; such a text would count as one that is not JSON). Its standard
  output is a UTF-8 stream.
\<close>

definition EXAMPLE_RESPONSE :: pystr where
  "EXAMPLE_RESPONSE =
     [91, 123, 34, 105, 100, 34, 58, 34, 49, 34, 44, 34, 100, 101, 115, 99, 114, 105,
      112, 116, 105, 111, 110, 34, 58, 34, 12304, 38656, 27714, 25551, 36848, 12305,
      29992, 25143, 21517, 30331, 24405, 34, 125, 44, 123, 34, 105, 100, 34, 58, 34,
      50, 34, 44, 34, 100, 101, 115, 99, 114, 105, 112, 116, 105, 111, 110, 34, 58, 34,
      12304, 38656, 27714, 25551, 36848, 12305, 25163, 26426, 21495, 30331, 24405, 34,
      125, 93]"

definition EXAMPLE_SUB_REQUIREMENTS :: "json list" where
  "EXAMPLE_SUB_REQUIREMENTS =
     [JObj [(lit ''id'', JStr (lit ''1'')),
            (lit ''description'',
               JStr (marker FIELD_DESCRIPTION @ [29992, 25143, 21517, 30331, 24405]))],
      JObj [(lit ''id'', JStr (lit ''2'')),
            (lit ''description'',
               JStr (marker FIELD_DESCRIPTION @ [25163, 26426, 21495, 30331, 24405]))]]"

text \<open>A response that is a JSON object with the one key \<open>verdict\<close>.\<close>

definition EXAMPLE_VERDICT :: pystr where
  "EXAMPLE_VERDICT =
     [123, 34, 118, 101, 114, 100, 105, 99, 116, 34, 58, 32, 34, 102, 105, 110, 101,
      34, 125]"

text \<open>A response that is an evaluation: the score 4 and the justification \<open>ok\<close>.\<close>

definition EXAMPLE_EVALUATION :: pystr where
  "EXAMPLE_EVALUATION =
     [123, 34, 115, 99, 111, 114, 101, 34, 58, 32, 52, 44, 32, 34, 106, 117, 115, 116,
      105, 102, 105, 99, 97, 116, 105, 111, 110, 34, 58, 32, 34, 111, 107, 34, 125]"

definition example_json_loads :: "pystr \<Rightarrow> loads_outcome" where
  "example_json_loads s =
     (case json_loads_text example_interpreter s of
        Inr v \<Rightarrow> Returned v
      | Inl (Raised_error err) \<Rightarrow> Raised err
      | Inl _ \<Rightarrow> Raised_JSONDecodeError)"

definition example_env :: env where
  "example_env =
     \<lparr>api_key = Some (lit ''key''),
      chat_completion = (\<lambda>n system user. if n = 0 then Completed (Some EXAMPLE_RESPONSE) else RateLimitError),
      json_loads = example_json_loads,
      stdout_accepts = utf8_encodable,
      system_prompt = lit ''system'',
      decomposition_rules = [lit ''rule''],
      evaluation_system_prompt = lit ''system'',
      evaluation_user_prompt_template = (\<lambda>original decomposed. original @ [10] @ decomposed),
      py_repr = (\<lambda>v. lit ''value'')\<rparr>"


text \<open>
  Three more responses: an array whose only item is an integer of 4301 digits, a text
  that is not JSON and holds a lone surrogate, and the JSON string of a lone surrogate
  (written with its escape). The endpoint of \<open>example_raising_env\<close> gives them in this
  order.
\<close>

definition EXAMPLE_MANY_DIGITS :: pystr where
  "EXAMPLE_MANY_DIGITS = 91 # replicate 4301 49 @ [93]"

definition EXAMPLE_NOT_JSON :: pystr where
  "EXAMPLE_NOT_JSON = [55296]"

definition EXAMPLE_SURROGATE_STRING :: pystr where
  "EXAMPLE_SURROGATE_STRING = [34, 92, 117, 100, 56, 48, 48, 34]"



text \<open>An input file of three requirements: the first has the row number 0, the other two
  are valid.\<close>

definition example_file :: json where
  "example_file =
     JArr [JObj [(lit ''row'', JInt 0), (lit ''req'', JStr (lit ''A''))],
           JObj [(lit ''row'', JInt 5), (lit ''req'', JStr (lit ''B''))],
           JObj [(lit ''row'', JInt 6), (lit ''req'', JStr (lit ''C''))]]"

subsection \<open>The text the encoder writes\<close>

text \<open>What may follow a value in the text the encoder writes: the end, a comma or a line
  feed. What a value starts with: no whitespace, closing bracket or comma.\<close>

definition follow_ok :: "pystr \<Rightarrow> bool" where
  "follow_ok rest \<longleftrightarrow> (case rest of [] \<Rightarrow> True | c # _ \<Rightarrow> c = 44 \<or> c = 10)"

definition value_start :: "nat \<Rightarrow> bool" where
  "value_start c \<longleftrightarrow> \<not> is_ws c \<and> c \<noteq> 93 \<and> c \<noteq> 125 \<and> c \<noteq> 44"

text \<open>The scanner reads the text of a value back, at any nesting level, with fuel from
  the length of the text on and before any text that may follow.\<close>

abbreviation (input) round_trips :: "interpreter \<Rightarrow> json \<Rightarrow> bool" where
  "round_trips I v \<equiv>
     (\<forall>l n d rest. length (iterencode l v) \<le> n \<longrightarrow> d + nesting v \<le> json_depth I \<longrightarrow>
        follow_ok rest \<longrightarrow> scan_once I n d (iterencode l v @ rest) = Inr (v, rest))"

abbreviation (input) pair_text :: "nat \<Rightarrow> pystr \<times> json \<Rightarrow> pystr" where
  "pair_text l kv \<equiv> encode_basestring (fst kv) @ lit '': '' @ iterencode (Suc l) (snd kv)"

text \<open>Three result lists: the one of the example, one whose only \<open>id\<close> is a lone
  surrogate, and one whose row number is a one followed by 4300 zeros.\<close>

definition example_results :: "json list" where
  "example_results = [result_record (JInt 5) EXAMPLE_SUB_REQUIREMENTS]"

definition example_large_row_results :: "json list" where
  "example_large_row_results =
     [result_record (JInt (10 ^ 4300))
        [JObj [(lit ''id'', JStr (lit ''1'')), (lit ''description'', JStr (lit ''x''))]]]"

definition example_surrogate_results :: "json list" where
  "example_surrogate_results =
     [result_record (JInt 1)
        [JObj [(lit ''id'', JStr [55296]), (lit ''description'', JStr (lit ''x''))]]]"

section \<open>Properties of extract_content\<close>

lemma LBR_not_space: "\<not> isspace LBR"
  by (simp add: isspace_def LBR_def)

lemma trailer_iff: "trailer s \<longleftrightarrow> (\<forall>c \<in> set (takeWhile (\<lambda>c. c \<noteq> LBR) s). isspace c)"
  by (induction s) (auto simp: LBR_not_space)

lemma rstrip_all_space: "(\<forall>c \<in> set s. isspace c) \<Longrightarrow> rstrip s = []"
  by (simp add: rstrip_def)

lemma rstrip_Cons: "rstrip (c # s) = (if (\<forall>x \<in> set (c # s). isspace x) then [] else c # rstrip s)"
  by (auto simp: rstrip_def dropWhile_append)

text \<open>The lazy group always finds a stop: it is the text before the next opening
  bracket without its trailing whitespace.\<close>

lemma lazy_group_eq: "lazy_group s = Some (rstrip (takeWhile (\<lambda>c. c \<noteq> LBR) s))"
proof (induction s)
  case Nil
  show ?case by (simp add: rstrip_def)
next
  case (Cons c cs)
  show ?case
  proof (cases "trailer (c # cs)")
    case True
    then have "rstrip (takeWhile (\<lambda>c. c \<noteq> LBR) (c # cs)) = []"
      unfolding trailer_iff by (rule rstrip_all_space)
    with True show ?thesis by simp
  next
    case False
    then have ne: "c \<noteq> LBR" by auto
    from False have "\<not> (\<forall>x \<in> set (c # takeWhile (\<lambda>c. c \<noteq> LBR) cs). isspace x)"
      unfolding trailer_iff using ne by simp
    then show ?thesis using False ne Cons.IH by (simp add: rstrip_Cons del: trailer.simps)
  qed
qed

text \<open>So the greedy whitespace run before the group never has to give a character back.\<close>

lemma after_marker_eq: "after_marker s = lazy_group (dropWhile isspace s)"
  by (induction s) (auto simp: lazy_group_eq)

lemma takeWhile_dropWhile_space:
  "takeWhile (\<lambda>c. c \<noteq> LBR) (dropWhile isspace s) = dropWhile isspace (takeWhile (\<lambda>c. c \<noteq> LBR) s)"
  by (induction s) (auto simp: LBR_not_space)

lemma lstrip_rstrip: "lstrip (rstrip s) = rstrip (lstrip s)"
proof (induction s)
  case Nil
  show ?case by (simp add: rstrip_def lstrip_def)
next
  case (Cons c s)
  show ?case
  proof (cases "\<forall>x \<in> set (c # s). isspace x")
    case True
    then have a: "rstrip (c # s) = []" by (rule rstrip_all_space)
    have b: "lstrip (c # s) = []"
      unfolding lstrip_def using True by (simp only: dropWhile_eq_Nil_conv)
    show ?thesis unfolding a b by (simp add: lstrip_def rstrip_def)
  next
    case False
    then show ?thesis using Cons.IH by (auto simp: rstrip_Cons lstrip_def)
  qed
qed

lemma lstrip_idem: "lstrip (lstrip s) = lstrip s"
  by (simp add: lstrip_def dropWhile_idem)

lemma rstrip_idem: "rstrip (rstrip s) = rstrip s"
  by (simp add: rstrip_def dropWhile_idem)

lemma strip_idem: "strip (strip s) = strip s"
  by (simp add: strip_def lstrip_rstrip lstrip_idem rstrip_idem)

lemma after_marker_strip: "after_marker s = Some (strip (takeWhile (\<lambda>c. c \<noteq> LBR) s))"
  by (simp add: after_marker_eq lazy_group_eq takeWhile_dropWhile_space strip_def lstrip_def)

lemma match_here_Some:
  "match_here f t = Some g \<longleftrightarrow>
     (\<exists>rest. t = marker f @ rest \<and> g = strip (takeWhile (\<lambda>c. c \<noteq> LBR) rest))"
  by (auto simp: match_here_def after_marker_strip prefix_def)

lemma match_here_None: "match_here f t = None \<longleftrightarrow> \<not> prefix (marker f) t"
  by (auto simp: match_here_def after_marker_strip)

lemma re_search_None:
  "re_search f t = None \<longleftrightarrow> \<not> (\<exists>pre rest. t = pre @ marker f @ rest)"
proof (induction t)
  case Nil
  then show ?case by (auto simp: match_here_None prefix_def marker_def)
next
  case (Cons c cs)
  have "(\<exists>pre rest. c # cs = pre @ marker f @ rest) \<longleftrightarrow>
        prefix (marker f) (c # cs) \<or> (\<exists>pre rest. cs = pre @ marker f @ rest)"
    by (auto simp: prefix_def Cons_eq_append_conv)
  then show ?case using Cons.IH
    by (cases "match_here f (c # cs)") (auto simp: match_here_None [symmetric])
qed

lemma re_search_first:
  assumes "t = pre @ marker f @ rest"
    and "\<forall>pre' rest'. t = pre' @ marker f @ rest' \<longrightarrow> length pre \<le> length pre'"
  shows "re_search f t = Some (strip (takeWhile (\<lambda>c. c \<noteq> LBR) rest))"
  using assms
proof (induction pre arbitrary: t)
  case Nil
  then have m: "match_here f t = Some (strip (takeWhile (\<lambda>c. c \<noteq> LBR) rest))"
    by (simp add: match_here_Some)
  from Nil obtain c cs where "t = c # cs" by (cases t) (auto simp: marker_def)
  with m show ?case by simp
next
  case (Cons p ps)
  have "\<not> prefix (marker f) t"
  proof
    assume "prefix (marker f) t"
    then obtain r where "t = [] @ marker f @ r" by (auto simp: prefix_def)
    with Cons.prems(2) have "length (p # ps) \<le> length ([] :: pystr)" by blast
    then show False by simp
  qed
  then have n: "match_here f t = None" by (simp add: match_here_None)
  have "re_search f (ps @ marker f @ rest) = Some (strip (takeWhile (\<lambda>c. c \<noteq> LBR) rest))"
  proof (rule Cons.IH [OF refl], intro allI impI)
    fix pre' rest'
    assume "ps @ marker f @ rest = pre' @ marker f @ rest'"
    then have "t = (p # pre') @ marker f @ rest'" using Cons.prems(1) by simp
    with Cons.prems(2) have "length (p # ps) \<le> length (p # pre')" by blast
    then show "length ps \<le> length pre'" by simp
  qed
  with n Cons.prems(1) show ?case by simp
qed

text \<open>
  What \<open>extract_content\<close> computes on a string: \<open>None\<close> exactly when the marker of the
  field does not occur in it. When the marker occurs, the result is the text between
  the first occurrence of the marker and the next opening bracket after it (whether or
  not a closing bracket follows that one), or the end of the string when no opening
  bracket follows, with leading and trailing whitespace stripped.
\<close>

lemma extract_content_result:
  "(extract_content (JStr t) f = Inr None \<longleftrightarrow> \<not> (\<exists>pre rest. t = pre @ marker f @ rest)) \<and>
   (\<forall>pre rest. t = pre @ marker f @ rest \<and>
        (\<forall>pre' rest'. t = pre' @ marker f @ rest' \<longrightarrow> length pre \<le> length pre') \<longrightarrow>
      extract_content (JStr t) f = Inr (Some (strip (takeWhile (\<lambda>c. c \<noteq> LBR) rest))))"
  by (auto simp: re_search_None re_search_first strip_idem)

lemma extract_content_example:
  "extract_content (JStr ([120] @ marker FIELD_DESCRIPTION @ [32, 97, 32, 10, LBR, 98, RBR, 99]))
     FIELD_DESCRIPTION = Inr (Some [97]) \<and>
   extract_content (JStr [120, 97]) FIELD_DESCRIPTION = Inr None"
proof -
  let ?t = "[120] @ marker FIELD_DESCRIPTION @ [32, 97, 32, 10, LBR, 98, RBR, 99]"
  have first: "\<forall>pre' rest'. ?t = pre' @ marker FIELD_DESCRIPTION @ rest' \<longrightarrow>
      length [120::nat] \<le> length pre'"
  proof (intro allI impI)
    fix pre' rest'
    assume "?t = pre' @ marker FIELD_DESCRIPTION @ rest'"
    then show "length [120::nat] \<le> length pre'"
      by (cases pre') (simp_all add: marker_def LBR_def)
  qed
  have absent: "\<not> (\<exists>pre rest. [120, 97] = pre @ marker FIELD_DESCRIPTION @ rest)"
    by (auto simp: marker_def FIELD_DESCRIPTION_def append_eq_Cons_conv Cons_eq_append_conv)
  have "strip (takeWhile (\<lambda>c. c \<noteq> LBR) [32, 97, 32, 10, LBR, 98, RBR, 99]) = [97]"
    by (simp add: strip_def lstrip_def rstrip_def isspace_def LBR_def)
  then show ?thesis
    using extract_content_result [of ?t FIELD_DESCRIPTION] first absent
      extract_content_result [of "[120, 97]" FIELD_DESCRIPTION]
    by (metis (no_types, lifting))
qed

text \<open>
  Claim C6 does not hold of the code. On the marker followed by \<open>a\<close>, an opening bracket
  and \<open>b\<close>, no further marker follows the first one, so the section the claim describes
  runs to the end of the string; \<open>extract_content\<close> stops at the lone opening bracket and
  returns \<open>a\<close>. The comment above the pattern in the source states the intent the claim
  states: the match is to stop at the next field marker or at the end of the string, and
  the lookahead it documents asks for a line feed before the opening bracket; the
  lookahead of the pattern itself asks for the opening bracket alone.
\<close>

theorem extract_content_failing_input:
  "extract_content (JStr (marker FIELD_DESCRIPTION @ [97, LBR, 98])) FIELD_DESCRIPTION = Inr (Some [97]) \<and>
   strip (spec_until_next_marker [97, LBR, 98]) = [97, LBR, 98]"
  by (simp add: marker_def FIELD_DESCRIPTION_def LBR_def RBR_def match_here_def strip_def
      lstrip_def rstrip_def isspace_def)

section \<open>Properties of process_json_file\<close>

lemma re_search_Nil: "re_search f [] = None"
  by (simp add: match_here_def marker_def)

lemma sections_Cons:
  "sections (r # rs) =
     (case re_search FIELD_DESCRIPTION (description_of r) of
        None \<Rightarrow> sections rs
      | Some g \<Rightarrow> if strip g \<noteq> [] then strip g # sections rs else sections rs)"
  by (simp add: sections_def map_filter_simps split: option.splits)

lemma sections_Nil: "sections [] = []"
  by (simp add: sections_def map_filter_simps)

lemma extract_descriptions_loop_sections:
  "list_all sub_requirement subs \<Longrightarrow>
   extract_descriptions_loop subs acc = Inr (acc @ sections subs)"
proof (induction subs arbitrary: acc)
  case Nil
  show ?case by (simp add: sections_Nil)
next
  case (Cons r rs)
  from Cons.prems obtain kvs d where
    r: "r = JObj kvs" "map_of kvs (lit ''description'') = Some (JStr d)"
    by (cases r) (auto split: option.splits json.splits)
  have key: "lit ''description'' \<in> fst ` set kvs"
    using r(2) by (metis domI dom_map_of_conv_image_fst)
  have rest: "\<And>acc. extract_descriptions_loop rs acc = Inr (acc @ sections rs)"
    using Cons by simp
  show ?case
  proof (cases "d = []")
    case True
    then show ?thesis using r key rest
      by (simp add: sections_Cons re_search_Nil del: re_search.simps)
  next
    case False
    then show ?thesis using r key rest
      by (simp add: sections_Cons split: option.splits)
  qed
qed

lemma process_json_loop_metrics:
  "list_all decomposition_result items \<Longrightarrow>
   process_json_loop items acc = Inr (acc @ map metric_of (filter scored items))"
proof (induction items arbitrary: acc)
  case Nil
  show ?case by simp
next
  case (Cons item items)
  from Cons.prems obtain kvs subs where
    item: "item = JObj kvs" "dict_get kvs (lit ''decomposed_list'') = JArr subs"
      "list_all sub_requirement subs"
    by (cases item) (auto split: json.splits)
  have rest: "\<And>acc. process_json_loop items acc = Inr (acc @ map metric_of (filter scored items))"
    using Cons by simp
  have sc: "scored (JObj kvs) \<longleftrightarrow> truthy (dict_get kvs (lit ''row_number'')) \<and> subs \<noteq> []"
    using item by (simp add: scored_def)
  have m: "metric_of (JObj kvs) =
      metric_record (dict_get kvs (lit ''row_number'')) (join [32] (sections subs))
        (length (sections subs))"
    using item by (simp add: metric_of_def)
  show ?case using item rest
    by (simp add: sc m extract_descriptions_from_list_def extract_descriptions_loop_sections)
qed

text \<open>
  Claim C5, as amended. On a file of decomposition-output records, \<open>process_json_file\<close>
  returns one metric record for each record with a truthy \<open>row_number\<close> and a non-empty
  \<open>decomposed_list\<close>, in order. In it \<open>concatenated\<close> is the space-join of the non-empty
  description sections that \<open>extract_content\<close> finds in the sub-requirement descriptions
  (not of the whole descriptions), and \<open>description_count\<close> is the number of those
  sections (not the number of sub-requirements).
\<close>

theorem process_json_file_metric:
  "list_all decomposition_result items \<Longrightarrow>
   process_json_file (JArr items) = Inr (map metric_of (filter scored items)) \<and>
   list_all (\<lambda>item.
       py_get (metric_of item) (lit ''row'') = Inr (row_number_of item) \<and>
       py_get (metric_of item) (lit ''concatenated'') =
         Inr (JStr (join [32] (sections (subs_of item)))) \<and>
       py_get (metric_of item) (lit ''description_count'') =
         Inr (JInt (int (length (sections (subs_of item)))))) items"
  by (simp add: process_json_file_def process_json_loop_metrics metric_of_def
      metric_record_def dict_get_def list_all_iff)

theorem process_json_file_metric_witness:
  "list_all decomposition_result [example_marked_item] \<and>
   process_json_file (JArr [example_marked_item]) = Inr [metric_record (JInt 7) (lit ''A'') 1]"
proof -
  have wf: "list_all decomposition_result [example_marked_item]"
    by (simp add: example_marked_item_def dict_get_def)
  have s: "sections (subs_of example_marked_item) = [lit ''A'']"
    by (simp add: example_marked_item_def dict_get_def sections_def map_filter_simps
        match_here_def marker_def FIELD_DESCRIPTION_def LBR_def RBR_def strip_def lstrip_def
        rstrip_def isspace_def)
  have m: "map metric_of (filter scored [example_marked_item]) = [metric_record (JInt 7) (lit ''A'') 1]"
    by (simp add: metric_of_def scored_def s) (simp add: example_marked_item_def dict_get_def)
  from process_json_file_metric [OF wf]
  have "process_json_file (JArr [example_marked_item]) =
      Inr (map metric_of (filter scored [example_marked_item]))"
    by (rule conjunct1)
  with wf m show ?thesis by simp
qed

text \<open>
  The claim as stated fails on a record whose one description has no marker: the code
  produces an empty \<open>concatenated\<close> and the count 0, the claim the description and 1.
\<close>

theorem process_json_file_counterexample:
  "process_json_file (JArr [example_plain_item]) = Inr [metric_record (JInt 1) [] 0] \<and>
   spec_metric_of example_plain_item = metric_record (JInt 1) (lit ''abc'') 1 \<and>
   process_json_file (JArr [example_plain_item]) \<noteq> Inr [spec_metric_of example_plain_item]"
  by (simp add: example_plain_item_def process_json_file_def extract_descriptions_from_list_def
      spec_metric_of_def metric_record_def dict_get_def match_here_def marker_def
      FIELD_DESCRIPTION_def LBR_def)

section \<open>Properties of get_requirement_from_excel\<close>

lemma list_index_None: "list_index xs x = None \<longleftrightarrow> x \<notin> set xs"
  by (induction xs) auto

lemma list_index_Some:
  "list_index xs x = Some i \<longleftrightarrow> i < length xs \<and> xs ! i = x \<and> (\<forall>j<i. xs ! j \<noteq> x)"
proof (induction xs arbitrary: i)
  case Nil
  show ?case by simp
next
  case (Cons y ys)
  show ?case
  proof (cases "y = x")
    case True
    then show ?thesis by (cases i) auto
  next
    case False
    show ?thesis
    proof (cases i)
      case 0
      with False show ?thesis by simp
    next
      case (Suc k)
      have "(\<forall>j<Suc k. (y # ys) ! j \<noteq> x) \<longleftrightarrow> (\<forall>j<k. ys ! j \<noteq> x)"
        using False by (auto simp: less_Suc_eq_0_disj)
      with False Suc Cons.IH [of k] show ?thesis by auto
    qed
  qed
qed

text \<open>
  Claim C7. \<open>get_requirement_from_excel\<close> returns \<open>None\<close> when the workbook cannot be
  loaded, when no cell of the header row equals the column name, when the row number is
  outside \<open>1..max_row\<close>, and when the addressed cell is empty or not a string. It
  returns a string exactly when the workbook loads, the column name equals a header cell
  (the first such cell gives the column), the row number is in range and the cell holds a
  non-empty string; the result is that string stripped.
\<close>

theorem get_requirement_from_excel_cases:
  "((\<forall>wb. fs file_path \<noteq> Loaded wb) \<longrightarrow>
      get_requirement_from_excel fs file_path column_name row_number sheet_name = None) \<and>
   (\<forall>wb sh. fs file_path = Loaded wb \<and> select_sheet wb sheet_name = Some sh \<and>
        CStr column_name \<notin> set (header_row sh) \<longrightarrow>
      get_requirement_from_excel fs file_path column_name row_number sheet_name = None) \<and>
   (\<forall>wb sh. fs file_path = Loaded wb \<and> select_sheet wb sheet_name = Some sh \<and>
        \<not> (1 \<le> row_number \<and> row_number \<le> int (max_row sh)) \<longrightarrow>
      get_requirement_from_excel fs file_path column_name row_number sheet_name = None) \<and>
   (\<forall>wb sh i. fs file_path = Loaded wb \<and> select_sheet wb sheet_name = Some sh \<and>
        list_index (header_row sh) (CStr column_name) = Some i \<and>
        (\<forall>s. cell sh (nat row_number) (i + 1) = CStr s \<longrightarrow> s = []) \<longrightarrow>
      get_requirement_from_excel fs file_path column_name row_number sheet_name = None) \<and>
   (\<forall>r. get_requirement_from_excel fs file_path column_name row_number sheet_name = Some r \<longleftrightarrow>
      (\<exists>wb sh i s. fs file_path = Loaded wb \<and> select_sheet wb sheet_name = Some sh \<and>
         i < length (header_row sh) \<and> header_row sh ! i = CStr column_name \<and>
         (\<forall>j<i. header_row sh ! j \<noteq> CStr column_name) \<and>
         1 \<le> row_number \<and> row_number \<le> int (max_row sh) \<and>
         cell sh (nat row_number) (i + 1) = CStr s \<and> s \<noteq> [] \<and> r = strip s))"
proof (intro conjI allI impI)
  show "get_requirement_from_excel fs file_path column_name row_number sheet_name = None"
    if "\<forall>wb. fs file_path \<noteq> Loaded wb"
    using that by (cases "fs file_path") (simp_all add: get_requirement_from_excel_def)
next
  fix wb sh
  assume "fs file_path = Loaded wb \<and> select_sheet wb sheet_name = Some sh \<and>
        CStr column_name \<notin> set (header_row sh)"
  then show "get_requirement_from_excel fs file_path column_name row_number sheet_name = None"
    by (simp add: get_requirement_from_excel_def list_index_None [symmetric])
next
  fix wb sh
  assume "fs file_path = Loaded wb \<and> select_sheet wb sheet_name = Some sh \<and>
        \<not> (1 \<le> row_number \<and> row_number \<le> int (max_row sh))"
  then show "get_requirement_from_excel fs file_path column_name row_number sheet_name = None"
    by (auto simp: get_requirement_from_excel_def split: option.splits)
next
  fix wb sh i
  assume "fs file_path = Loaded wb \<and> select_sheet wb sheet_name = Some sh \<and>
        list_index (header_row sh) (CStr column_name) = Some i \<and>
        (\<forall>s. cell sh (nat row_number) (i + 1) = CStr s \<longrightarrow> s = [])"
  then show "get_requirement_from_excel fs file_path column_name row_number sheet_name = None"
    by (auto simp: get_requirement_from_excel_def split: cell_value.splits)
next
  fix r
  show "get_requirement_from_excel fs file_path column_name row_number sheet_name = Some r \<longleftrightarrow>
      (\<exists>wb sh i s. fs file_path = Loaded wb \<and> select_sheet wb sheet_name = Some sh \<and>
         i < length (header_row sh) \<and> header_row sh ! i = CStr column_name \<and>
         (\<forall>j<i. header_row sh ! j \<noteq> CStr column_name) \<and>
         1 \<le> row_number \<and> row_number \<le> int (max_row sh) \<and>
         cell sh (nat row_number) (i + 1) = CStr s \<and> s \<noteq> [] \<and> r = strip s)"
    (is "?L \<longleftrightarrow> ?R")
  proof
    assume ?L
    then obtain wb sh i s where
      a: "fs file_path = Loaded wb" "select_sheet wb sheet_name = Some sh"
         "list_index (header_row sh) (CStr column_name) = Some i"
         "1 \<le> row_number" "row_number \<le> int (max_row sh)"
         "cell sh (nat row_number) (i + 1) = CStr s" "s \<noteq> []" "r = strip s"
      by (auto simp: get_requirement_from_excel_def Let_def
          split: load_result.splits option.splits cell_value.splits if_splits)
    from a(3) have "i < length (header_row sh) \<and> header_row sh ! i = CStr column_name \<and>
         (\<forall>j<i. header_row sh ! j \<noteq> CStr column_name)"
      by (simp add: list_index_Some)
    with a show ?R by blast
  next
    assume ?R
    then obtain wb sh i s where
      a: "fs file_path = Loaded wb" "select_sheet wb sheet_name = Some sh"
         "i < length (header_row sh) \<and> header_row sh ! i = CStr column_name \<and>
           (\<forall>j<i. header_row sh ! j \<noteq> CStr column_name)"
         "1 \<le> row_number" "row_number \<le> int (max_row sh)"
         "cell sh (nat row_number) (i + 1) = CStr s" "s \<noteq> []" "r = strip s"
      by blast
    from a(3) have "list_index (header_row sh) (CStr column_name) = Some i"
      by (simp add: list_index_Some)
    with a show ?L by (simp add: get_requirement_from_excel_def)
  qed
qed


lemma example_header: "header_row example_sheet = [CStr COLUMN_L1, CStr COLUMN_L2]"
  by (simp add: header_row_def example_sheet_def numeral_2_eq_2)

lemma example_load: "example_fs DATA_XLSX = Loaded \<lparr>sheets = [(lit ''Sheet1'', example_sheet)], active = example_sheet\<rparr>"
  by (simp add: example_fs_def)

lemma strip_X: "strip [32, 88, 32] = [88]"
  by (simp add: strip_def lstrip_def rstrip_def isspace_def)

theorem get_requirement_from_excel_cases_witness:
  "get_requirement_from_excel example_fs (lit ''missing.xlsx'') COLUMN_L1 3 None = None \<and>
   get_requirement_from_excel example_fs DATA_XLSX (lit ''L1'') 3 None = None \<and>
   get_requirement_from_excel example_fs DATA_XLSX COLUMN_L1 4 None = None \<and>
   get_requirement_from_excel example_fs DATA_XLSX COLUMN_L1 2 None = None \<and>
   get_requirement_from_excel example_fs DATA_XLSX COLUMN_L1 3 None = Some (lit ''X'')"
proof (intro conjI)
  let ?wb = "\<lparr>sheets = [(lit ''Sheet1'', example_sheet)], active = example_sheet\<rparr>"
  have sel: "select_sheet ?wb None = Some example_sheet"
    by (simp add: select_sheet_def)
  have idx: "list_index (header_row example_sheet) (CStr COLUMN_L1) = Some 0"
    by (simp add: example_header)
  have "\<forall>wb. example_fs (lit ''missing.xlsx'') \<noteq> Loaded wb"
    by (simp add: example_fs_def DATA_XLSX_def)
  with get_requirement_from_excel_cases [of example_fs "lit ''missing.xlsx''" COLUMN_L1 3 None]
  show "get_requirement_from_excel example_fs (lit ''missing.xlsx'') COLUMN_L1 3 None = None"
    by blast
  have "CStr (lit ''L1'') \<notin> set (header_row example_sheet)"
    by (simp add: example_header COLUMN_L1_def COLUMN_L2_def)
  with get_requirement_from_excel_cases [of example_fs DATA_XLSX "lit ''L1''" 3 None] example_load sel
  show "get_requirement_from_excel example_fs DATA_XLSX (lit ''L1'') 3 None = None"
    by blast
  have "\<not> (1 \<le> (4::int) \<and> 4 \<le> int (max_row example_sheet))"
    by (simp add: example_sheet_def)
  with get_requirement_from_excel_cases [of example_fs DATA_XLSX COLUMN_L1 4 None] example_load sel
  show "get_requirement_from_excel example_fs DATA_XLSX COLUMN_L1 4 None = None"
    by blast
  have "\<forall>s. cell example_sheet (nat 2) (0 + 1) = CStr s \<longrightarrow> s = []"
    by (simp add: example_sheet_def)
  with get_requirement_from_excel_cases [of example_fs DATA_XLSX COLUMN_L1 2 None] example_load sel idx
  show "get_requirement_from_excel example_fs DATA_XLSX COLUMN_L1 2 None = None"
    by blast
  have "0 < length (header_row example_sheet) \<and> header_row example_sheet ! 0 = CStr COLUMN_L1 \<and>
      (\<forall>j<0. header_row example_sheet ! j \<noteq> CStr COLUMN_L1) \<and>
      1 \<le> (3::int) \<and> 3 \<le> int (max_row example_sheet) \<and>
      cell example_sheet (nat 3) (0 + 1) = CStr (lit '' X '') \<and> lit '' X '' \<noteq> [] \<and>
      lit ''X'' = strip (lit '' X '')"
    by (simp add: example_header strip_X) (simp add: example_sheet_def)
  with get_requirement_from_excel_cases [of example_fs DATA_XLSX COLUMN_L1 3 None] example_load sel
  show "get_requirement_from_excel example_fs DATA_XLSX COLUMN_L1 3 None = Some (lit ''X'')"
    by blast
qed

section \<open>Properties of process_excel_file\<close>

lemma strs_of_append:
  "strs_of (xs @ ys) =
     (case strs_of xs of
        None \<Rightarrow> None
      | Some a \<Rightarrow> (case strs_of ys of None \<Rightarrow> None | Some b \<Rightarrow> Some (a @ b)))"
  by (induction xs rule: strs_of.induct) (auto split: option.splits)

lemma strs_of_length: "strs_of ds = Some D \<Longrightarrow> length D = length ds"
  by (induction ds arbitrary: D rule: strs_of.induct) auto

lemma process_excel_loop_step:
  "process_excel_loop fs (r # rws) (res, ds, l) =
     (if has_L1 fs r then
        (case strs_of ds of
           None \<Rightarrow> Inl TypeError
         | Some D \<Rightarrow>
             (case L2_cell fs r of
                None \<Rightarrow> Inl TypeError
              | Some s \<Rightarrow>
                  process_excel_loop fs rws
                    (res @ [metric_record (JInt l) (join [32] D) (length ds)],
                     [opt_json (map_option strip (re_search FIELD_DESCRIPTION s))], r)))
      else
        (case L2_cell fs r of
           None \<Rightarrow> Inl TypeError
         | Some s \<Rightarrow>
             process_excel_loop fs rws
               (res, ds @ [opt_json (map_option strip (re_search FIELD_DESCRIPTION s))], l)))"
  by (simp add: has_L1_def py_join_def split: option.splits)

lemma process_excel_loop_error:
  "process_excel_loop fs rws st = Inl e \<Longrightarrow> e = TypeError"
proof (induction rws arbitrary: st)
  case Nil
  then show ?case by simp
next
  case (Cons r rws)
  obtain res ds l where st: "st = (res, ds, l)" by (cases st)
  from Cons.prems show ?case
    unfolding st process_excel_loop_step
    by (auto split: if_splits option.splits dest: Cons.IH)
qed

lemma process_excel_loop_None:
  "\<exists>r \<in> set rws. L2_cell fs r = None \<Longrightarrow> process_excel_loop fs rws st = Inl TypeError"
proof (induction rws arbitrary: st)
  case Nil
  then show ?case by simp
next
  case (Cons r rws)
  obtain res ds l where st: "st = (res, ds, l)" by (cases st)
  show ?case
  proof (cases "L2_cell fs r")
    case None
    then show ?thesis unfolding st process_excel_loop_step by (simp split: option.splits)
  next
    case (Some s)
    with Cons.prems have "\<exists>r \<in> set rws. L2_cell fs r = None" by auto
    then have "\<And>st. process_excel_loop fs rws st = Inl TypeError" by (rule Cons.IH)
    then show ?thesis unfolding st process_excel_loop_step by (simp split: option.splits)
  qed
qed

lemma process_excel_loop_sections:
  "process_excel_loop fs rws (res, ds, l) = Inr (res', ds', l') \<Longrightarrow> strs_of ds' \<noteq> None \<Longrightarrow>
   strs_of ds \<noteq> None \<and>
   (\<forall>r \<in> set rws. \<exists>s. L2_cell fs r = Some s \<and> re_search FIELD_DESCRIPTION s \<noteq> None)"
proof (induction rws arbitrary: res ds l)
  case Nil
  then show ?case by simp
next
  case (Cons r rws)
  from Cons.prems(1) obtain s where s: "L2_cell fs r = Some s"
    unfolding process_excel_loop_step by (auto split: if_splits option.splits)
  let ?d = "opt_json (map_option strip (re_search FIELD_DESCRIPTION s))"
  show ?case
  proof (cases "has_L1 fs r")
    case True
    with Cons.prems(1) s obtain D where D: "strs_of ds = Some D"
      and run: "process_excel_loop fs rws
          (res @ [metric_record (JInt l) (join [32] D) (length ds)], [?d], r) = Inr (res', ds', l')"
      unfolding process_excel_loop_step by (auto split: option.splits)
    from Cons.IH [OF run Cons.prems(2)] D s show ?thesis
      by (cases "re_search FIELD_DESCRIPTION s") auto
  next
    case False
    with Cons.prems(1) s have
      run: "process_excel_loop fs rws (res, ds @ [?d], l) = Inr (res', ds', l')"
      unfolding process_excel_loop_step by (auto split: option.splits)
    from Cons.IH [OF run Cons.prems(2)] s show ?thesis
      by (cases "re_search FIELD_DESCRIPTION s") (auto simp: strs_of_append split: option.splits)
  qed
qed


lemma process_excel_loop_prefix:
  "process_excel_loop fs rws (res, ds, l) = Inr (res', ds', l') \<Longrightarrow> \<exists>more. res' = res @ more"
proof (induction rws arbitrary: res ds l)
  case Nil
  then show ?case by simp
next
  case (Cons r rws)
  from Cons.prems show ?case
    unfolding process_excel_loop_step
    by (auto split: if_splits option.splits dest!: Cons.IH)
qed

lemma process_excel_loop_first:
  "process_excel_loop fs rws (res, ds, l) = Inr (res', ds', l') \<Longrightarrow> strs_of ds' \<noteq> None \<Longrightarrow>
   strs_of ds = Some D \<Longrightarrow>
   (if list_all (\<lambda>r. \<not> has_L1 fs r) rws
    then res' = res \<and> strs_of ds' = Some (D @ map (L2_section fs) rws) \<and> l' = l
    else \<exists>more. res' = res @
           metric_record (JInt l)
             (join [32] (D @ map (L2_section fs) (takeWhile (\<lambda>r. \<not> has_L1 fs r) rws)))
             (length D + length (takeWhile (\<lambda>r. \<not> has_L1 fs r) rws)) # more)"
proof (induction rws arbitrary: res ds l D)
  case Nil
  then show ?case by simp
next
  case (Cons r rws)
  from process_excel_loop_sections [OF Cons.prems(1,2)]
  obtain s g where s: "L2_cell fs r = Some s" and g: "re_search FIELD_DESCRIPTION s = Some g"
    by auto
  have sec: "L2_section fs r = strip g" by (simp add: L2_section_def s g)
  show ?case
  proof (cases "has_L1 fs r")
    case True
    with Cons.prems(1,3) s g have
      "process_excel_loop fs rws
          (res @ [metric_record (JInt l) (join [32] D) (length ds)], [JStr (strip g)], r) =
        Inr (res', ds', l')"
      unfolding process_excel_loop_step by simp
    then obtain more where
      "res' = (res @ [metric_record (JInt l) (join [32] D) (length ds)]) @ more"
      by (blast dest: process_excel_loop_prefix)
    with True strs_of_length [OF Cons.prems(3)] show ?thesis by simp
  next
    case False
    with Cons.prems(1) s g have
      run: "process_excel_loop fs rws (res, ds @ [JStr (strip g)], l) = Inr (res', ds', l')"
      unfolding process_excel_loop_step by simp
    have D': "strs_of (ds @ [JStr (strip g)]) = Some (D @ [strip g])"
      using Cons.prems(3) by (simp add: strs_of_append)
    from Cons.IH [OF run Cons.prems(2) D'] False sec show ?thesis
      by (auto split: if_splits)
  qed
qed

text \<open>
  Claim C9. When \<open>get_requirement_from_excel\<close> returns \<open>None\<close> for the L2 cell of a scanned
  row, \<open>process_excel_file\<close> raises (\<open>TypeError\<close>: \<open>extract_content\<close> is applied to \<open>None\<close>)
  and returns no result. So whenever it returns, every scanned row's L2 cell yielded a
  non-empty string. And whenever it returns, its first record is keyed by row 0 and holds
  the description sections of the rws before the first row with text in the L1 column.
\<close>

theorem process_excel_file_partial:
  "((\<exists>r \<in> set [2..row_end - 1]. get_requirement_from_excel fs DATA_XLSX COLUMN_L2 r None = None) \<longrightarrow>
      process_excel_file fs file_path row_end = Inl TypeError) \<and>
   (\<forall>out. process_excel_file fs file_path row_end = Inr out \<longrightarrow>
      (\<forall>r \<in> set [2..row_end - 1].
         \<exists>s. get_requirement_from_excel fs DATA_XLSX COLUMN_L2 r None = Some s \<and> s \<noteq> []) \<and>
      out \<noteq> [] \<and>
      hd out =
        metric_record (JInt 0)
          (join [32] (map (L2_section fs) (takeWhile (\<lambda>r. \<not> has_L1 fs r) [2..row_end - 1])))
          (length (takeWhile (\<lambda>r. \<not> has_L1 fs r) [2..row_end - 1])))"
proof (intro conjI allI impI)
  assume "\<exists>r \<in> set [2..row_end - 1]. get_requirement_from_excel fs DATA_XLSX COLUMN_L2 r None = None"
  then show "process_excel_file fs file_path row_end = Inl TypeError"
    by (simp add: process_excel_file_def process_excel_loop_None)
next
  fix out
  assume ok: "process_excel_file fs file_path row_end = Inr out"
  let ?rows = "[2..row_end - 1]"
  let ?pre = "takeWhile (\<lambda>r. \<not> has_L1 fs r) ?rows"
  from ok obtain res ds l D where
    run: "process_excel_loop fs ?rows ([], [], 0) = Inr (res, ds, l)" and
    D: "strs_of ds = Some D" and
    out: "out = res @ [metric_record (JInt l) (join [32] D) (length ds)]"
    by (auto simp: process_excel_file_def py_join_def split: sum.splits option.splits)
  from D have ne: "strs_of ds \<noteq> None" by simp
  from process_excel_loop_sections [OF run ne]
  have "\<forall>r \<in> set ?rows. \<exists>s. L2_cell fs r = Some s \<and> re_search FIELD_DESCRIPTION s \<noteq> None"
    by simp
  then show "\<forall>r \<in> set ?rows. \<exists>s. L2_cell fs r = Some s \<and> s \<noteq> []"
    by (metis re_search_Nil)
  from out show "out \<noteq> []" by simp
  have first: "if list_all (\<lambda>r. \<not> has_L1 fs r) ?rows
    then res = [] \<and> strs_of ds = Some ([] @ map (L2_section fs) ?rows) \<and> l = 0
    else \<exists>more. res = [] @
           metric_record (JInt 0) (join [32] ([] @ map (L2_section fs) ?pre))
             (length ([] :: pystr list) + length ?pre) # more"
    by (rule process_excel_loop_first [OF run ne]) simp
  show "hd out = metric_record (JInt 0) (join [32] (map (L2_section fs) ?pre)) (length ?pre)"
  proof (cases "list_all (\<lambda>r. \<not> has_L1 fs r) ?rows")
    case True
    then have pre: "?pre = ?rows" by (simp add: list_all_iff)
    from True first D have "res = []" "D = map (L2_section fs) ?rows" "l = 0" by simp_all
    with out strs_of_length [OF D] show ?thesis unfolding pre by simp
  next
    case False
    with first obtain more where
      "res = metric_record (JInt 0) (join [32] (map (L2_section fs) ?pre)) (length ?pre) # more"
      by auto
    with out show ?thesis by simp
  qed
qed


lemma example_L1_cells:
  "get_requirement_from_excel example_fs DATA_XLSX COLUMN_L1 2 None = None"
  "get_requirement_from_excel example_fs DATA_XLSX COLUMN_L1 3 None = Some [88]"
  by (simp_all add: get_requirement_from_excel_def example_load select_sheet_def example_header)
    (simp_all add: example_sheet_def strip_X)

lemma strip_example:
  "strip (marker FIELD_DESCRIPTION @ [65]) = marker FIELD_DESCRIPTION @ [65]"
  "strip (marker FIELD_DESCRIPTION @ [66]) = marker FIELD_DESCRIPTION @ [66]"
  by (simp_all add: strip_def lstrip_def rstrip_def isspace_def marker_def LBR_def RBR_def
      FIELD_DESCRIPTION_def)

lemma example_L2_cells:
  "get_requirement_from_excel example_fs DATA_XLSX COLUMN_L2 2 None = Some (marker FIELD_DESCRIPTION @ [65])"
  "get_requirement_from_excel example_fs DATA_XLSX COLUMN_L2 3 None = Some (marker FIELD_DESCRIPTION @ [66])"
  "get_requirement_from_excel example_fs DATA_XLSX COLUMN_L2 4 None = None"
    apply (simp_all add: get_requirement_from_excel_def example_load select_sheet_def example_header)
    apply (simp_all add: COLUMN_L1_def COLUMN_L2_def)
    apply (simp_all add: example_sheet_def strip_example)
  done

lemma strip_letter: "strip [65] = [65]" "strip [66] = [66]"
  by (simp_all add: strip_def lstrip_def rstrip_def isspace_def)

lemma example_search:
  "re_search FIELD_DESCRIPTION (marker FIELD_DESCRIPTION @ [65]) = Some [65]"
  "re_search FIELD_DESCRIPTION (marker FIELD_DESCRIPTION @ [66]) = Some [66]"
  using re_search_first [of "marker FIELD_DESCRIPTION @ [65]" "[]" FIELD_DESCRIPTION "[65]"]
    re_search_first [of "marker FIELD_DESCRIPTION @ [66]" "[]" FIELD_DESCRIPTION "[66]"]
  by (simp_all add: strip_letter LBR_def)

lemma example_scan:
  "process_excel_file example_fs file_path 4 =
     Inr [metric_record (JInt 0) [65] 1, metric_record (JInt 3) [66] 1]"
  by (simp add: process_excel_file_def upto_rec1 example_L1_cells example_L2_cells
      example_search strip_letter py_join_def del: re_search.simps)


theorem process_excel_file_partial_witness:
  "process_excel_file example_fs DATA_XLSX 5 = Inl TypeError \<and>
   process_excel_file example_fs DATA_XLSX 4 =
     Inr [metric_record (JInt 0) [65] 1, metric_record (JInt 3) [66] 1] \<and>
   (\<exists>s. get_requirement_from_excel example_fs DATA_XLSX COLUMN_L2 3 None = Some s \<and> s \<noteq> []) \<and>
   metric_record (JInt 0)
     (join [32] (map (L2_section example_fs) (takeWhile (\<lambda>r. \<not> has_L1 example_fs r) [2..4 - 1])))
     (length (takeWhile (\<lambda>r. \<not> has_L1 example_fs r) [2..4 - 1])) =
   metric_record (JInt 0) [65] 1"
proof -
  have "\<exists>r \<in> set [2..5 - 1]. get_requirement_from_excel example_fs DATA_XLSX COLUMN_L2 r None = None"
    using example_L2_cells(3) by simp
  with process_excel_file_partial [where row_end = 5 and fs = example_fs and file_path = DATA_XLSX]
  have a: "process_excel_file example_fs DATA_XLSX 5 = Inl TypeError" by blast
  have ev: "process_excel_file example_fs DATA_XLSX 4 =
     Inr [metric_record (JInt 0) [65] 1, metric_record (JInt 3) [66] 1]"
    by (rule example_scan)
  with process_excel_file_partial [where row_end = 4 and fs = example_fs and file_path = DATA_XLSX]
  have b: "(\<forall>r \<in> set [2..4 - 1].
         \<exists>s. get_requirement_from_excel example_fs DATA_XLSX COLUMN_L2 r None = Some s \<and> s \<noteq> []) \<and>
      hd [metric_record (JInt 0) [65] 1, metric_record (JInt 3) [66] 1] =
        metric_record (JInt 0)
          (join [32] (map (L2_section example_fs) (takeWhile (\<lambda>r. \<not> has_L1 example_fs r) [2..4 - 1])))
          (length (takeWhile (\<lambda>r. \<not> has_L1 example_fs r) [2..4 - 1]))"
    by blast
  then have "\<exists>s. get_requirement_from_excel example_fs DATA_XLSX COLUMN_L2 3 None = Some s \<and> s \<noteq> []"
    by simp
  with a ev b show ?thesis by simp
qed

section \<open>Properties of the metrics alignment\<close>

lemma align_loop_eq:
  "align_loop P R (ps, rs, ks) =
     (ps @ map snd (filter (\<lambda>kv. fst kv \<in> fst ` set R) P),
      rs @ map (\<lambda>kv. the (map_of R (fst kv))) (filter (\<lambda>kv. fst kv \<in> fst ` set R) P),
      ks @ map fst (filter (\<lambda>kv. fst kv \<in> fst ` set R) P))"
proof (induction P arbitrary: ps rs ks)
  case Nil
  show ?case by simp
next
  case (Cons kv P)
  obtain k v where kv: "kv = (k, v)" by (cases kv)
  show ?case
  proof (cases "map_of R k")
    case None
    then have "k \<notin> fst ` set R" by (simp add: map_of_eq_None_iff)
    with None show ?thesis by (simp add: kv Cons.IH)
  next
    case (Some r)
    then have "k \<in> fst ` set R" by (metis domI dom_map_of_conv_image_fst)
    with Some show ?thesis by (simp add: kv Cons.IH)
  qed
qed

lemma map_of_distinct_filter:
  "distinct (map fst P) \<Longrightarrow>
   map Some (map snd (filter Q P)) = map (map_of P) (map fst (filter Q P))"
proof -
  assume d: "distinct (map fst P)"
  have "\<And>kv. kv \<in> set P \<Longrightarrow> map_of P (fst kv) = Some (snd kv)"
    using d by (simp add: map_of_is_SomeI)
  then show ?thesis by (induction P) (auto simp: comp_def)
qed

text \<open>
  Claim C4, as amended. For every pair of a prediction map and a reference map, the
  aligned rows are exactly the keys of both maps (an inner join, in the order of the
  prediction map), each with its prediction and its reference. A row that is a key of
  only one map is left out silently: whatever the number of such rows, the alignment
  prints one line, which reports the number of aligned pairs or that there is none.
\<close>

theorem align_inner_join:
  "distinct (map fst P) \<Longrightarrow>
   rows (align P R) = filter (\<lambda>k. k \<in> fst ` set R) (map fst P) \<and>
   set (rows (align P R)) = fst ` set P \<inter> fst ` set R \<and>
   map Some (predictions_raw (align P R)) = map (map_of P) (rows (align P R)) \<and>
   map Some (references_raw (align P R)) = map (map_of R) (rows (align P R)) \<and>
   printed (align P R) =
     [if rows (align P R) = [] then No_pairs_aligned else Pairs_aligned (length (rows (align P R)))]"
proof -
  assume d: "distinct (map fst P)"
  let ?F = "filter (\<lambda>kv. fst kv \<in> fst ` set R) P"
  have a: "align P R = \<lparr>predictions_raw = map snd ?F,
      references_raw = map (\<lambda>kv. the (map_of R (fst kv))) ?F, rows = map fst ?F,
      printed = [if map snd ?F = [] then No_pairs_aligned else Pairs_aligned (length (map snd ?F))]\<rparr>"
    by (simp add: align_def align_loop_eq)
  have r: "rows (align P R) = filter (\<lambda>k. k \<in> fst ` set R) (map fst P)"
    by (simp add: a filter_map comp_def)
  have s: "set (rows (align P R)) = fst ` set P \<inter> fst ` set R"
    unfolding r by auto
  have p: "map Some (predictions_raw (align P R)) = map (map_of P) (rows (align P R))"
    unfolding a using map_of_distinct_filter [OF d, of "\<lambda>kv. fst kv \<in> fst ` set R"]
    by (simp del: map_map)
  have "\<And>kv. kv \<in> set ?F \<Longrightarrow> map_of R (fst kv) = Some (the (map_of R (fst kv)))"
  proof -
    fix kv assume "kv \<in> set ?F"
    then have "fst kv \<in> fst ` set R" by simp
    then have "map_of R (fst kv) \<noteq> None" by (simp add: map_of_eq_None_iff)
    then show "map_of R (fst kv) = Some (the (map_of R (fst kv)))" by simp
  qed
  then have q: "map Some (references_raw (align P R)) = map (map_of R) (rows (align P R))"
    by (simp add: a)
  have l: "printed (align P R) =
     [if rows (align P R) = [] then No_pairs_aligned else Pairs_aligned (length (rows (align P R)))]"
    by (simp add: a)
  from r s p q l show ?thesis by blast
qed

theorem align_inner_join_witness:
  "distinct (map fst example_predictions) \<and>
   rows (align example_predictions example_references) = [2] \<and>
   predictions_raw (align example_predictions example_references) = [lit ''b''] \<and>
   references_raw (align example_predictions example_references) = [lit ''x''] \<and>
   printed (align example_predictions example_references) = [Pairs_aligned 1]"
proof -
  have d: "distinct (map fst example_predictions)"
    by (simp add: example_predictions_def)
  have f: "filter (\<lambda>k. k \<in> fst ` set example_references) (map fst example_predictions) = [2]"
    by (simp add: example_predictions_def example_references_def)
  from align_inner_join [OF d, of example_references] f
  have "rows (align example_predictions example_references) = [2]"
    and "map Some (predictions_raw (align example_predictions example_references)) =
      map (map_of example_predictions) [2]"
    and "map Some (references_raw (align example_predictions example_references)) =
      map (map_of example_references) [2]"
    and "printed (align example_predictions example_references) = [Pairs_aligned 1]"
    by simp_all
  with d show ?thesis
    by (simp add: example_predictions_def example_references_def map_eq_Cons_conv)
qed

text \<open>
  The claim as stated fails on the example of the specification: rows 1 and 3 are keys of
  one map only, and the one line printed is the count of aligned pairs, so there are
  fewer lines than skipped rows.
\<close>

theorem align_counterexample:
  "only_one_side example_predictions example_references = [1, 3] \<and>
   rows (align example_predictions example_references) = [2] \<and>
   printed (align example_predictions example_references) = [Pairs_aligned 1] \<and>
   length (printed (align example_predictions example_references)) <
     length (only_one_side example_predictions example_references)"
  by (simp add: only_one_side_def align_def example_predictions_def example_references_def)

section \<open>Properties of writing and reading the result file\<close>

declare str_of_nat.simps [simp del]
declare scanstring.simps [simp del]
declare scan_once.simps [simp del] array_items.simps [simp del] object_items.simps [simp del]

subsection \<open>Strings\<close>

lemma hex_value_hex_digit: "d < 16 \<Longrightarrow> hex_value (hex_digit d) = Some d"
  by (auto simp: hex_value_def hex_digit_def)

lemma decode_escape: "c < 32 \<Longrightarrow>
  decode_uXXXX (48 # 48 # hex_digit (c div 16) # hex_digit (c mod 16) # t) = Some c"
proof -
  assume c: "c < 32"
  then have "c div 16 < 16" "c mod 16 < 16" by auto
  then show ?thesis by (simp add: hex_value_hex_digit) (simp add: hex_value_def)
qed

lemma scanstring_escape:
  "scanstring (escape_char c @ t) = map_option (\<lambda>(s, rest). (c # s, rest)) (scanstring t)"
proof -
  consider "c = 34" | "c = 92" | "c = 8" | "c = 12" | "c = 10" | "c = 13" | "c = 9"
    | "c < 32" "c \<notin> {8, 12, 10, 13, 9}" | "32 \<le> c" "c \<noteq> 34" "c \<noteq> 92"
    by fastforce
  then show ?thesis
  proof cases
    case 8
    then have e: "escape_char c = [92, 117, 48, 48, hex_digit (c div 16), hex_digit (c mod 16)]"
      by (auto simp: escape_char_def)
    show ?thesis
      unfolding e using 8(1) by (simp add: scanstring.simps decode_escape del: decode_uXXXX.simps)
  next
    case 9
    then show ?thesis by (simp add: escape_char_def scanstring.simps)
  qed (simp_all add: escape_char_def scanstring.simps unescape_def)
qed

lemma scanstring_concat:
  "scanstring (concat (map escape_char s) @ 34 # rest) = Some (s, rest)"
  by (induction s) (simp_all add: scanstring_escape, simp add: scanstring.simps)

lemma scanstring_basestring:
  "encode_basestring s @ rest = 34 # concat (map escape_char s) @ 34 # rest"
  by (simp add: encode_basestring_def)

subsection \<open>Integers\<close>

lemma str_of_nat_digits: "str_of_nat n \<noteq> [] \<and> list_all is_digit (str_of_nat n)"
proof (induction n rule: str_of_nat.induct)
  case (1 n)
  show ?case
  proof (cases "n < 10")
    case True
    then show ?thesis by (simp add: str_of_nat.simps [of n] is_digit_def)
  next
    case False
    have "n mod 10 < 10" by simp
    then have "is_digit (48 + n mod 10)" unfolding is_digit_def by linarith
    with False 1 show ?thesis by (simp add: str_of_nat.simps [of n])
  qed
qed

lemma nat_of_digits_snoc: "nat_of_digits (ds @ [d]) = 10 * nat_of_digits ds + (d - 48)"
  by (simp add: nat_of_digits_def)

lemma nat_of_digits_str: "nat_of_digits (str_of_nat n) = n"
proof (induction n rule: str_of_nat.induct)
  case (1 n)
  show ?case
  proof (cases "n < 10")
    case True
    then show ?thesis by (simp add: str_of_nat.simps [of n] nat_of_digits_def)
  next
    case False
    with 1 show ?thesis by (simp add: str_of_nat.simps [of n] nat_of_digits_snoc)
  qed
qed

lemma str_of_nat_hd: "0 < n \<Longrightarrow> 49 \<le> hd (str_of_nat n) \<and> hd (str_of_nat n) \<le> 57"
proof (induction n rule: str_of_nat.induct)
  case (1 n)
  show ?case
  proof (cases "n < 10")
    case True
    with 1 show ?thesis by (simp add: str_of_nat.simps [of n])
  next
    case False
    then have "0 < n div 10" by simp
    with False 1 str_of_nat_digits [of "n div 10"] show ?thesis
      by (simp add: str_of_nat.simps [of n])
  qed
qed

lemma follow_ok_digit: "follow_ok rest \<Longrightarrow> takeWhile is_digit rest = [] \<and> dropWhile is_digit rest = rest"
  by (cases rest) (auto simp: follow_ok_def is_digit_def)

lemma follow_ok_float: "follow_ok rest \<Longrightarrow> \<not> float_tail rest"
  by (auto simp: follow_ok_def float_tail_def split: list.splits)

lemma match_integer_str:
  "follow_ok rest \<Longrightarrow> match_integer (str_of_nat n @ rest) = Some (str_of_nat n, rest)"
proof (cases "n = 0")
  case True
  then show ?thesis by (simp add: str_of_nat.simps [of 0] match_integer_def)
next
  case False
  assume f: "follow_ok rest"
  from str_of_nat_digits [of n] obtain d ds where s: "str_of_nat n = d # ds" "list_all is_digit ds"
    by (cases "str_of_nat n") auto
  from False str_of_nat_hd [of n] s have d: "49 \<le> d" "d \<le> 57" by auto
  have "takeWhile is_digit (ds @ rest) = ds" "dropWhile is_digit (ds @ rest) = rest"
    using s(2) follow_ok_digit [OF f] by (simp_all add: list_all_iff takeWhile_append2 dropWhile_append2)
  with d show ?thesis by (simp add: s match_integer_def)
qed

lemma scan_number_str:
  "follow_ok rest \<Longrightarrow> \<not> too_many_digits I (decimal_digits i) \<Longrightarrow>
   scan_number I (str_of_int i @ rest) = Inr (JInt i, rest)"
proof -
  assume f: "follow_ok rest" and g: "\<not> too_many_digits I (decimal_digits i)"
  show ?thesis
  proof (cases "i < 0")
    case True
    then have "nat \<bar>i\<bar> = nat (- i)" by simp
    with g have "\<not> too_many_digits I (length (str_of_nat (nat (- i))))"
      by (simp add: decimal_digits_def)
    with True show ?thesis
      by (simp add: scan_number_def str_of_int_def match_integer_str [OF f] follow_ok_float [OF f]
          nat_of_digits_str)
  next
    case False
    then have "nat \<bar>i\<bar> = nat i" by simp
    with g have l: "\<not> too_many_digits I (length (str_of_nat (nat i)))"
      by (simp add: decimal_digits_def)
    from str_of_nat_digits [of "nat i"] obtain d ds where s: "str_of_nat (nat i) = d # ds" "is_digit d"
      by (cases "str_of_nat (nat i)") auto
    then have "d \<noteq> 45" by (auto simp: is_digit_def)
    then have "(case str_of_nat (nat i) @ rest of c # r \<Rightarrow> if c = 45 then (True, r) else (False, str_of_nat (nat i) @ rest)
        | [] \<Rightarrow> (False, str_of_nat (nat i) @ rest)) = (False, str_of_nat (nat i) @ rest)"
      by (simp add: s)
    with False l show ?thesis
      by (simp add: scan_number_def str_of_int_def match_integer_str [OF f] follow_ok_float [OF f]
          nat_of_digits_str)
  qed
qed


subsection \<open>Values\<close>

lemma skip_ws_not_ws: "\<not> is_ws c \<Longrightarrow> skip_ws (c # t) = c # t"
  by (simp add: skip_ws_def)

lemma skip_ws_newline_indent: "skip_ws (newline_indent l @ t) = skip_ws t"
proof -
  have "list_all is_ws (newline_indent l)"
    by (simp add: newline_indent_def is_ws_def list_all_iff)
  then show ?thesis by (simp add: skip_ws_def dropWhile_append2 list_all_iff)
qed

lemma follow_ok_newline_indent: "follow_ok (newline_indent l @ t)"
  by (simp add: follow_ok_def newline_indent_def)

lemma follow_ok_comma: "follow_ok (44 # t)"
  by (simp add: follow_ok_def)

lemma str_of_int_first: "\<exists>c cs. str_of_int i = c # cs \<and> (c = 45 \<or> is_digit c)"
  using str_of_nat_digits [of "nat i"]
  by (cases "str_of_nat (nat i)") (auto simp: str_of_int_def)

lemma iterencode_first: "\<exists>c cs. iterencode l v = c # cs \<and> value_start c"
proof (cases v)
  case (JInt i)
  from str_of_int_first [of i] show ?thesis
    by (auto simp: JInt value_start_def is_ws_def is_digit_def)
qed (auto simp: value_start_def is_ws_def encode_basestring_def)

lemma skip_ws_value: "skip_ws (iterencode l v @ t) = iterencode l v @ t"
  using iterencode_first [of l v] by (auto simp: value_start_def skip_ws_not_ws)

lemma join_Cons: "xs \<noteq> [] \<Longrightarrow> join sep (x # xs) = x @ sep @ join sep xs"
  by (cases xs) simp_all

lemma join_hd: "xs \<noteq> [] \<Longrightarrow> \<exists>t. join sep xs = hd xs @ t"
proof (cases xs)
  case Nil
  assume "xs \<noteq> []"
  with Nil show ?thesis by simp
next
  case (Cons y ys)
  then show ?thesis by (cases ys) simp_all
qed

lemma join_first:
  "xs \<noteq> [] \<Longrightarrow> \<exists>t. join sep (map (iterencode l) xs) = iterencode l (hd xs) @ t"
proof (cases xs)
  case Nil
  assume "xs \<noteq> []"
  with Nil show ?thesis by simp
next
  case (Cons y ys)
  then show ?thesis by (cases ys) simp_all
qed

lemma array_items_join:
  assumes "xs \<noteq> []" and "\<forall>x \<in> set xs. round_trips I x"
    and "length (join (44 # newline_indent (Suc l)) (map (iterencode (Suc l)) xs)) < n"
    and "\<forall>x \<in> set xs. d + nesting x \<le> json_depth I"
  shows "array_items I n d
           (join (44 # newline_indent (Suc l)) (map (iterencode (Suc l)) xs) @
            newline_indent l @ 93 # rest) acc =
         Inr (JArr (acc @ xs), rest)"
  using assms
proof (induction xs arbitrary: n acc rule: list_nonempty_induct)
  case (single x)
  then obtain m where n: "n = Suc m" and m: "length (iterencode (Suc l) x) \<le> m"
    by (cases n) auto
  from single m have "scan_once I m d (iterencode (Suc l) x @ newline_indent l @ 93 # rest) =
      Inr (x, newline_indent l @ 93 # rest)"
    by (simp add: follow_ok_newline_indent)
  then show ?case
    by (simp add: n array_items.simps skip_ws_newline_indent skip_ws_not_ws is_ws_def)
next
  case (cons x xs)
  let ?sep = "44 # newline_indent (Suc l)"
  let ?J = "join ?sep (map (iterencode (Suc l)) xs)"
  have j: "join ?sep (map (iterencode (Suc l)) (x # xs)) = iterencode (Suc l) x @ ?sep @ ?J"
    using cons.hyps by (simp add: join_Cons)
  from cons.prems(2) obtain m where n: "n = Suc m" and
    m: "length (iterencode (Suc l) x) \<le> m" "length ?J < m"
    unfolding j by (cases n) auto
  from cons.prems(1,3) m(1) have
    "scan_once I m d (iterencode (Suc l) x @ ?sep @ ?J @ newline_indent l @ 93 # rest) =
      Inr (x, ?sep @ ?J @ newline_indent l @ 93 # rest)"
    by (simp add: follow_ok_comma)
  moreover have "skip_ws (newline_indent (Suc l) @ ?J @ newline_indent l @ 93 # rest) =
      ?J @ newline_indent l @ 93 # rest"
  proof -
    from join_first [OF cons.hyps(1), of ?sep "Suc l"] obtain t where
      "?J = iterencode (Suc l) (hd xs) @ t" by blast
    then show ?thesis by (simp add: skip_ws_newline_indent skip_ws_value)
  qed
  moreover have "array_items I m d (?J @ newline_indent l @ 93 # rest) (acc @ [x]) =
      Inr (JArr ((acc @ [x]) @ xs), rest)"
    using cons.prems(1,3) m(2) by (intro cons.IH) auto
  ultimately show ?case
    unfolding j n by (simp add: array_items.simps skip_ws_not_ws is_ws_def)
qed


lemma dict_set_new: "k \<notin> set (map fst acc) \<Longrightarrow> dict_set acc k v = acc @ [(k, v)]"
  by (simp add: dict_set_def)

lemma object_items_pair:
  assumes v: "round_trips I v" and m: "length (iterencode (Suc l) v) \<le> m" and f: "follow_ok T"
    and k: "k \<notin> set (map fst acc)" and n: "dp + nesting v \<le> json_depth I"
  shows "object_items I (Suc m) dp (pair_text l (k, v) @ T) acc =
     (case skip_ws T of
        [] \<Rightarrow> Inl JSONDecodeError
      | d # ds \<Rightarrow>
          if d = 125 then Inr (JObj (acc @ [(k, v)]), ds)
          else if d = 44 then object_items I m dp (skip_ws ds) (acc @ [(k, v)])
          else Inl JSONDecodeError)"
proof -
  have t: "pair_text l (k, v) @ T =
      34 # concat (map escape_char k) @ 34 # (58 # 32 # iterencode (Suc l) v @ T)"
    by (simp add: encode_basestring_def)
  have s: "skip_ws (32 # iterencode (Suc l) v @ T) = iterencode (Suc l) v @ T"
    using skip_ws_value [of "Suc l" v T] by (simp add: skip_ws_def is_ws_def)
  have "scan_once I m dp (iterencode (Suc l) v @ T) = Inr (v, T)"
    using v m f n by simp
  then show ?thesis
    unfolding t
    by (simp add: object_items.simps scanstring_concat skip_ws_not_ws is_ws_def s
        del: append_assoc append.simps)
      (unfold dict_set_new [OF k], rule refl)
qed

lemma pair_text_first: "\<exists>t. pair_text l kv = 34 # t"
  by (simp add: encode_basestring_def)

lemma object_items_join:
  assumes "kvs \<noteq> []" and "\<forall>kv \<in> set kvs. round_trips I (snd kv)"
    and "length (join (44 # newline_indent (Suc l)) (map (pair_text l) kvs)) < n"
    and "distinct (map fst (acc @ kvs))"
    and "\<forall>kv \<in> set kvs. dp + nesting (snd kv) \<le> json_depth I"
  shows "object_items I n dp
           (join (44 # newline_indent (Suc l)) (map (pair_text l) kvs) @
            newline_indent l @ 125 # rest) acc =
         Inr (JObj (acc @ kvs), rest)"
  using assms
proof (induction kvs arbitrary: n acc rule: list_nonempty_induct)
  case (single kv)
  obtain k v where kv: "kv = (k, v)" by (cases kv)
  from single obtain m where n: "n = Suc m" and m: "length (iterencode (Suc l) v) \<le> m"
    by (cases n) (auto simp: kv)
  from single have k: "k \<notin> set (map fst acc)" and v: "round_trips I v"
    and dv: "dp + nesting v \<le> json_depth I"
    by (auto simp: kv)
  have "object_items I (Suc m) dp (pair_text l (k, v) @ newline_indent l @ 125 # rest) acc =
      Inr (JObj (acc @ [(k, v)]), rest)"
    unfolding object_items_pair [OF v m follow_ok_newline_indent k dv]
    by (simp add: skip_ws_newline_indent skip_ws_not_ws is_ws_def)
  then show ?case by (simp add: kv n)
next
  case (cons kv kvs)
  obtain k v where kv: "kv = (k, v)" by (cases kv)
  let ?sep = "44 # newline_indent (Suc l)"
  let ?J = "join ?sep (map (pair_text l) kvs)"
  have j: "join ?sep (map (pair_text l) (kv # kvs)) = pair_text l (k, v) @ ?sep @ ?J"
    using cons.hyps by (simp add: join_Cons kv)
  from cons.prems(2) obtain m where n: "n = Suc m" and
    m: "length (iterencode (Suc l) v) \<le> m" "length ?J < m"
    unfolding j by (cases n) auto
  from cons.prems have k: "k \<notin> set (map fst acc)" and v: "round_trips I v"
    and dv: "dp + nesting v \<le> json_depth I"
    by (auto simp: kv)
  have sk: "skip_ws (newline_indent (Suc l) @ ?J @ newline_indent l @ 125 # rest) =
      ?J @ newline_indent l @ 125 # rest"
  proof -
    have "map (pair_text l) kvs \<noteq> []" using cons.hyps by simp
    from join_hd [OF this, of ?sep] obtain t where
      "?J = pair_text l (hd kvs) @ t" using cons.hyps by (auto simp: hd_map)
    then obtain t' where "?J = 34 # t'" by (simp add: encode_basestring_def)
    then show ?thesis by (simp add: skip_ws_newline_indent skip_ws_not_ws is_ws_def)
  qed
  have rec: "object_items I m dp (?J @ newline_indent l @ 125 # rest) (acc @ [(k, v)]) =
      Inr (JObj ((acc @ [(k, v)]) @ kvs), rest)"
    using cons.prems(1,3,4) m(2) by (intro cons.IH) (auto simp: kv)
  have eq: "join ?sep (map (pair_text l) (kv # kvs)) @ newline_indent l @ 125 # rest =
      pair_text l (k, v) @ 44 # (newline_indent (Suc l) @ ?J @ newline_indent l @ 125 # rest)"
    unfolding j by simp
  have rec': "object_items I m dp
      (skip_ws (newline_indent (Suc l) @ ?J @ newline_indent l @ 125 # rest)) (acc @ [(k, v)]) =
      Inr (JObj ((acc @ [(k, v)]) @ kvs), rest)"
    unfolding sk by (rule rec)
  show ?case
    unfolding eq n object_items_pair [OF v m(1) follow_ok_comma k dv]
    using rec' by (simp add: skip_ws_not_ws is_ws_def kv)
qed


lemma scan_once_int:
  "follow_ok rest \<Longrightarrow> \<not> too_many_digits I (decimal_digits i) \<Longrightarrow>
   scan_once I (Suc m) d (str_of_int i @ rest) = Inr (JInt i, rest)"
proof -
  assume f: "follow_ok rest" and g: "\<not> too_many_digits I (decimal_digits i)"
  from str_of_int_first [of i] obtain c cs where
    c: "str_of_int i = c # cs" "c = 45 \<or> is_digit c" by blast
  then have "c \<noteq> 34" "c \<noteq> 123" "c \<noteq> 91" "c \<noteq> 110" "c \<noteq> 116" "c \<noteq> 102"
    by (auto simp: is_digit_def)
  then have "scan_once I (Suc m) d (c # cs @ rest) = scan_number I (c # cs @ rest)"
    by (simp add: scan_once.simps)
  with scan_number_str [OF f g] show ?thesis by (simp add: c(1))
qed

lemma scan_once_object:
  "skip_ws cs = 34 # ds \<Longrightarrow> d < json_depth I \<Longrightarrow>
   scan_once I (Suc m) d (123 # cs) = object_items I m (Suc d) (34 # ds) []"
  by (simp add: scan_once.simps)

lemma foldr_max_le: "foldr max ns 0 \<le> (k::nat) \<longleftrightarrow> (\<forall>n \<in> set ns. n \<le> k)"
  by (induction ns) auto

lemma nesting_array:
  "d + nesting (JArr xs) \<le> k \<longleftrightarrow> d < k \<and> (\<forall>x \<in> set xs. Suc d + nesting x \<le> k)"
proof -
  have "d + nesting (JArr xs) \<le> k \<longleftrightarrow> d < k \<and> foldr max (map nesting xs) 0 \<le> k - Suc d"
    by auto
  also have "\<dots> \<longleftrightarrow> d < k \<and> (\<forall>x \<in> set xs. Suc d + nesting x \<le> k)"
    unfolding foldr_max_le by auto
  finally show ?thesis .
qed

lemma nesting_object:
  "d + nesting (JObj kvs) \<le> k \<longleftrightarrow> d < k \<and> (\<forall>kv \<in> set kvs. Suc d + nesting (snd kv) \<le> k)"
proof -
  have "d + nesting (JObj kvs) \<le> k \<longleftrightarrow>
      d < k \<and> foldr max (map (\<lambda>kv. nesting (snd kv)) kvs) 0 \<le> k - Suc d"
    by auto
  also have "\<dots> \<longleftrightarrow> d < k \<and> (\<forall>kv \<in> set kvs. Suc d + nesting (snd kv) \<le> k)"
    unfolding foldr_max_le by auto
  finally show ?thesis .
qed

lemma round_trip_value: "wf_json v \<Longrightarrow> integers_within I v \<Longrightarrow> round_trips I v"
proof (induction v)
  case JNull
  show ?case
  proof (intro allI impI)
    fix l n d rest assume "length (iterencode l JNull) \<le> n"
    then obtain m where "n = Suc m" by (cases n) auto
    then show "scan_once I n d (iterencode l JNull @ rest) = Inr (JNull, rest)"
      by (simp add: scan_once.simps)
  qed
next
  case (JBool b)
  show ?case
  proof (intro allI impI)
    fix l n d rest assume "length (iterencode l (JBool b)) \<le> n"
    then obtain m where "n = Suc m" by (cases n; cases b) auto
    then show "scan_once I n d (iterencode l (JBool b) @ rest) = Inr (JBool b, rest)"
      by (cases b) (simp_all add: scan_once.simps)
  qed
next
  case (JInt i)
  then have g: "\<not> too_many_digits I (decimal_digits i)" by simp
  show ?case
  proof (intro allI impI)
    fix l n d rest assume "length (iterencode l (JInt i)) \<le> n" and f: "follow_ok rest"
    then obtain m where "n = Suc m"
      using str_of_int_first [of i] by (cases n) auto
    then show "scan_once I n d (iterencode l (JInt i) @ rest) = Inr (JInt i, rest)"
      by (simp add: scan_once_int [OF f g])
  qed
next
  case (JStr s)
  show ?case
  proof (intro allI impI)
    fix l n d rest assume "length (iterencode l (JStr s)) \<le> n"
    then obtain m where "n = Suc m" by (cases n) (auto simp: encode_basestring_def)
    then show "scan_once I n d (iterencode l (JStr s) @ rest) = Inr (JStr s, rest)"
      by (simp add: scan_once.simps encode_basestring_def scanstring_concat)
  qed
next
  case (JArr xs)
  then have items: "\<forall>x \<in> set xs. round_trips I x"
    by (simp add: list_all_iff)
  show ?case
  proof (intro allI impI)
    fix l n d rest
    assume n: "length (iterencode l (JArr xs)) \<le> n"
      and dp: "d + nesting (JArr xs) \<le> json_depth I"
    from dp have d: "d < json_depth I" and ds: "\<forall>x \<in> set xs. Suc d + nesting x \<le> json_depth I"
      unfolding nesting_array by simp_all
    show "scan_once I n d (iterencode l (JArr xs) @ rest) = Inr (JArr xs, rest)"
    proof (cases "xs = []")
      case True
      with n obtain m where "n = Suc m" by (cases n) auto
      with True d show ?thesis
        by (simp add: scan_once.simps skip_ws_not_ws is_ws_def)
    next
      case False
      let ?J = "join (44 # newline_indent (Suc l)) (map (iterencode (Suc l)) xs)"
      from n False obtain m where m: "n = Suc m" "length ?J < m"
        by (cases n) (auto simp: newline_indent_def)
      have t: "iterencode l (JArr xs) @ rest =
          91 # (newline_indent (Suc l) @ ?J @ newline_indent l @ 93 # rest)"
        using False by simp
      from join_first [OF False, of "44 # newline_indent (Suc l)" "Suc l"]
        iterencode_first [of "Suc l" "hd xs"]
      obtain c cs where c: "?J @ newline_indent l @ 93 # rest = c # cs" "value_start c"
        by auto
      have sk: "skip_ws (newline_indent (Suc l) @ ?J @ newline_indent l @ 93 # rest) = c # cs"
        unfolding skip_ws_newline_indent c(1) using c(2)
        by (simp add: skip_ws_not_ws value_start_def)
      have "array_items I m (Suc d) (c # cs) [] = Inr (JArr ([] @ xs), rest)"
        unfolding c(1) [symmetric] using False items m(2) ds by (rule array_items_join)
      then show ?thesis
        unfolding t m(1) using c(2) d by (simp add: scan_once.simps sk value_start_def)
    qed
  qed
next
  case (JObj kvs)
  then have items: "\<forall>kv \<in> set kvs. round_trips I (snd kv)" and dist: "distinct (map fst kvs)"
    by (auto simp: list_all_iff snds.simps)
  show ?case
  proof (intro allI impI)
    fix l n d rest
    assume n: "length (iterencode l (JObj kvs)) \<le> n"
      and dp: "d + nesting (JObj kvs) \<le> json_depth I"
    from dp have d: "d < json_depth I"
      and ds: "\<forall>kv \<in> set kvs. Suc d + nesting (snd kv) \<le> json_depth I"
      unfolding nesting_object by simp_all
    show "scan_once I n d (iterencode l (JObj kvs) @ rest) = Inr (JObj kvs, rest)"
    proof (cases "kvs = []")
      case True
      with n obtain m where "n = Suc m" by (cases n) auto
      with True d show ?thesis
        by (simp add: scan_once.simps skip_ws_not_ws is_ws_def)
    next
      case False
      let ?J = "join (44 # newline_indent (Suc l)) (map (pair_text l) kvs)"
      from n False obtain m where m: "n = Suc m" "length ?J < m"
        by (cases n) (auto simp: newline_indent_def)
      have t: "iterencode l (JObj kvs) @ rest =
          123 # (newline_indent (Suc l) @ ?J @ newline_indent l @ 125 # rest)"
        using False by simp
      have "map (pair_text l) kvs \<noteq> []" using False by simp
      from join_hd [OF this, of "44 # newline_indent (Suc l)"]
      obtain cs where c: "?J @ newline_indent l @ 125 # rest = 34 # cs"
        using False by (auto simp: hd_map encode_basestring_def)
      have sk: "skip_ws (newline_indent (Suc l) @ ?J @ newline_indent l @ 125 # rest) = 34 # cs"
        unfolding skip_ws_newline_indent c by (simp add: skip_ws_not_ws is_ws_def)
      have "object_items I m (Suc d) (34 # cs) [] = Inr (JObj ([] @ kvs), rest)"
        unfolding c [symmetric] using False items m(2) dist ds
        by (intro object_items_join) auto
      then show ?thesis
        unfolding t m(1) scan_once_object [OF sk d] by simp
    qed
  qed
qed


lemma json_loads_dumps:
  "wf_json v \<Longrightarrow> integers_within I v \<Longrightarrow> nesting v \<le> json_depth I \<Longrightarrow>
   json_loads_text I (json_dumps v) = Inr v"
proof -
  assume "wf_json v" "integers_within I v" and n: "nesting v \<le> json_depth I"
  from round_trip_value [OF this(1,2), rule_format, of 0 "Suc (length (iterencode 0 v))" 0 "[]"] n
  have "scan_once I (Suc (length (iterencode 0 v))) 0 (iterencode 0 v @ []) = Inr (v, [])"
    by (simp add: follow_ok_def)
  moreover have "skip_ws (iterencode 0 v) = iterencode 0 v"
    using skip_ws_value [of 0 v "[]"] by simp
  ultimately show ?thesis
    by (simp add: json_loads_text_def json_dumps_def skip_ws_def)
qed

lemma first_error_None: "first_error es = None \<longleftrightarrow> (\<forall>e \<in> set es. e = None)"
  by (induction es rule: first_error.induct) auto

lemma dump_error_None:
  "strings_encodable v \<Longrightarrow> integers_within I v \<Longrightarrow> d + nesting v \<le> json_depth I \<Longrightarrow>
   dump_error I d v = None"
proof (induction v arbitrary: d)
  case (JArr xs)
  from JArr.prems(3) have d: "d < json_depth I"
    and ds: "\<forall>x \<in> set xs. Suc d + nesting x \<le> json_depth I"
    unfolding nesting_array by simp_all
  have "\<forall>x \<in> set xs. dump_error I (Suc d) x = None"
    using JArr.IH JArr.prems(1,2) ds by (simp add: list_all_iff)
  with d show ?case by (simp add: first_error_None)
next
  case (JObj kvs)
  from JObj.prems(3) have d: "d < json_depth I"
    and ds: "\<forall>kv \<in> set kvs. Suc d + nesting (snd kv) \<le> json_depth I"
    unfolding nesting_object by simp_all
  have "\<forall>kv \<in> set kvs. utf8_encodable (fst kv) \<and> dump_error I (Suc d) (snd kv) = None"
  proof
    fix kv assume kv: "kv \<in> set kvs"
    then have "snd kv \<in> Basic_BNFs.snds kv" by (simp add: snds.simps)
    from JObj.IH [OF kv this] JObj.prems(1,2) ds kv
    show "utf8_encodable (fst kv) \<and> dump_error I (Suc d) (snd kv) = None"
      by (simp add: list_all_iff)
  qed
  with d show ?case by (simp add: first_error_None)
qed simp_all

text \<open>
  Claim C8, as amended. \<open>W\<close> is the interpreter that runs the decomposer and writes the
  file, \<open>R\<close> the one that runs the evaluator and reads it. For every list of result
  records (any values of type \<open>json\<close>, the keys of each dict distinct, as in a Python
  dict) in which no string holds a surrogate code point, no integer has more digits
  than the digit limit of either interpreter, and the nesting is within the depth each
  of them reaches, \<open>save_results_to_json\<close> writes the text of the list, and reading that
  text back with \<open>load_decomposed_results\<close> yields the list.
\<close>

theorem save_load_round_trip:
  "list_all wf_json results \<Longrightarrow> strings_encodable (JArr results) \<Longrightarrow>
   integers_within W (JArr results) \<Longrightarrow> nesting (JArr results) \<le> json_depth W \<Longrightarrow>
   integers_within R (JArr results) \<Longrightarrow> nesting (JArr results) \<le> json_depth R \<Longrightarrow>
   save_results_to_json W results = Inr (json_dumps (JArr results)) \<and>
   load_decomposed_results R (Some (json_dumps (JArr results))) = Inr (Some (JArr results))"
proof -
  assume w: "list_all wf_json results" and s: "strings_encodable (JArr results)"
    and iw: "integers_within W (JArr results)" and nw: "nesting (JArr results) \<le> json_depth W"
    and ir: "integers_within R (JArr results)" and nr: "nesting (JArr results) \<le> json_depth R"
  from nw have "0 + nesting (JArr results) \<le> json_depth W" by simp
  from dump_error_None [OF s iw this]
  have "save_results_to_json W results = Inr (json_dumps (JArr results))"
    by (simp add: save_results_to_json_def)
  moreover from w have "wf_json (JArr results)" by simp
  from json_loads_dumps [OF this ir nr]
  have "load_decomposed_results R (Some (json_dumps (JArr results))) = Inr (Some (JArr results))"
    by (simp add: load_decomposed_results_def)
  ultimately show ?thesis by simp
qed

lemma example_results_wf: "list_all wf_json example_results"
  by (simp add: example_results_def result_record_def EXAMPLE_SUB_REQUIREMENTS_def)

lemma newline_indent_simps:
  "newline_indent 0 = [10]" "newline_indent (Suc l) = newline_indent l @ [32, 32]"
proof -
  show "newline_indent 0 = [10]" by (simp add: newline_indent_def)
  have "replicate (2 * l + 2) (32::nat) = replicate (2 * l) 32 @ replicate 2 32"
    by (rule replicate_add)
  then show "newline_indent (Suc l) = newline_indent l @ [32, 32]"
    by (simp add: newline_indent_def numeral_2_eq_2)
qed

lemma utf8_encodable_append [simp]:
  "utf8_encodable (a @ b) \<longleftrightarrow> utf8_encodable a \<and> utf8_encodable b"
  by (simp add: utf8_encodable_def)

lemma utf8_encodable_Cons [simp]:
  "utf8_encodable (c # s) \<longleftrightarrow> (c < 55296 \<or> (57343 < c \<and> c < 1114112)) \<and> utf8_encodable s"
  "utf8_encodable []"
  by (simp_all add: utf8_encodable_def)

lemma example_results_encodable: "strings_encodable (JArr example_results)"
  by (simp add: example_results_def result_record_def EXAMPLE_SUB_REQUIREMENTS_def
      marker_def FIELD_DESCRIPTION_def LBR_def RBR_def)

lemma decimal_digits_small: "0 \<le> i \<Longrightarrow> i < 10 \<Longrightarrow> decimal_digits i = 1"
  by (simp add: decimal_digits_def str_of_nat.simps [of "nat i"])

lemma example_results_integers: "integers_within example_interpreter (JArr example_results)"
  by (simp add: example_results_def result_record_def EXAMPLE_SUB_REQUIREMENTS_def
      decimal_digits_small too_many_digits_def example_interpreter_def)

lemma example_results_nesting: "nesting (JArr example_results) \<le> json_depth example_interpreter"
  by (simp add: example_results_def result_record_def EXAMPLE_SUB_REQUIREMENTS_def
      example_interpreter_def)

theorem save_load_round_trip_witness:
  "list_all wf_json example_results \<and> strings_encodable (JArr example_results) \<and>
   integers_within example_interpreter (JArr example_results) \<and>
   nesting (JArr example_results) \<le> json_depth example_interpreter \<and>
   save_results_to_json example_interpreter example_results =
     Inr (json_dumps (JArr example_results)) \<and>
   load_decomposed_results example_interpreter (Some (json_dumps (JArr example_results))) =
     Inr (Some (JArr example_results))"
  using save_load_round_trip [OF example_results_wf example_results_encodable
      example_results_integers example_results_nesting
      example_results_integers example_results_nesting]
    example_results_wf example_results_encodable example_results_integers
    example_results_nesting by blast

lemma str_of_nat_power: "str_of_nat (10 ^ k) = 49 # replicate k 48"
proof (induction k)
  case 0
  show ?case by (simp add: str_of_nat.simps [of "Suc 0"])
next
  case (Suc k)
  have "\<not> (10::nat) ^ Suc k < 10" by simp
  then have "str_of_nat (10 ^ Suc k) =
      str_of_nat (10 ^ Suc k div 10) @ [48 + 10 ^ Suc k mod 10]"
    by (subst str_of_nat.simps) simp
  with Suc show ?case by (simp add: replicate_append_same)
qed

lemma decimal_digits_power: "decimal_digits (10 ^ k) = Suc k"
  unfolding decimal_digits_def by (simp add: nat_power_eq str_of_nat_power)

lemma dump_error_large_row:
  "0 < int_max_str_digits I \<Longrightarrow> int_max_str_digits I \<le> k \<Longrightarrow> 1 < json_depth I \<Longrightarrow>
   save_results_to_json I [result_record (JInt (10 ^ k)) xs] = Inl ValueError"
  by (simp add: save_results_to_json_def result_record_def decimal_digits_power
      too_many_digits_def)

text \<open>
  The claim as stated fails on a list with a string that holds a lone surrogate: the
  write raises \<open>UnicodeEncodeError\<close>, which the function catches and reports, and the
  file is left without the document. It fails as well on a list with a row number of
  4301 digits: the write raises \<open>ValueError\<close>.
\<close>

theorem save_load_counterexample:
  "list_all wf_json example_surrogate_results \<and>
   save_results_to_json example_interpreter example_surrogate_results = Inl UnicodeEncodeError \<and>
   list_all wf_json example_large_row_results \<and>
   save_results_to_json example_interpreter example_large_row_results = Inl ValueError"
proof -
  have a: "list_all wf_json example_surrogate_results \<and>
      save_results_to_json example_interpreter example_surrogate_results = Inl UnicodeEncodeError"
    by (simp add: save_results_to_json_def example_surrogate_results_def result_record_def
        example_interpreter_def decimal_digits_small too_many_digits_def)
  have b: "list_all wf_json example_large_row_results"
    unfolding example_large_row_results_def result_record_def
    by (simp del: power_numeral)
  have c: "save_results_to_json example_interpreter example_large_row_results = Inl ValueError"
    unfolding example_large_row_results_def
    by (rule dump_error_large_row) (simp_all add: example_interpreter_def)
  from a b c show ?thesis by blast
qed


subsection \<open>The documents of the examples\<close>

lemma scanner_numeral:
  "scan_once I (numeral k) d s = scan_once I (Suc (pred_numeral k)) d s"
  "array_items I (numeral k) d s acc = array_items I (Suc (pred_numeral k)) d s acc"
  "object_items I (numeral k) d s kvs = object_items I (Suc (pred_numeral k)) d s kvs"
  by (simp_all add: numeral_eq_Suc)

lemmas scanner_eval = scanner_numeral scan_once.simps array_items.simps object_items.simps
  scanstring.simps json_loads_text_def skip_ws_def is_ws_def scan_number_def match_integer_def
  float_tail_def is_digit_def nat_of_digits_def dict_set_def unescape_def
  example_interpreter_def too_many_digits_def

lemma example_verdict_text:
  "json_loads_text example_interpreter EXAMPLE_VERDICT =
     Inr (JObj [(lit ''verdict'', JStr (lit ''fine''))])"
  by (simp add: EXAMPLE_VERDICT_def scanner_eval)

lemma example_evaluation_text:
  "json_loads_text example_interpreter EXAMPLE_EVALUATION =
     Inr (JObj [(lit ''score'', JInt 4), (lit ''justification'', JStr (lit ''ok''))])"
  by (simp add: EXAMPLE_EVALUATION_def scanner_eval)

lemma example_response_text:
  "json_loads_text example_interpreter EXAMPLE_RESPONSE = Inr (JArr EXAMPLE_SUB_REQUIREMENTS)"
  by (simp add: EXAMPLE_RESPONSE_def EXAMPLE_SUB_REQUIREMENTS_def scanner_eval
      marker_def FIELD_DESCRIPTION_def LBR_def RBR_def)

lemma example_not_json_text:
  "json_loads_text example_interpreter EXAMPLE_NOT_JSON = Inl JSONDecodeError"
  by (simp add: EXAMPLE_NOT_JSON_def scanner_eval)

lemma example_surrogate_string_text:
  "json_loads_text example_interpreter EXAMPLE_SURROGATE_STRING = Inr (JStr [55296])"
  by (simp add: EXAMPLE_SURROGATE_STRING_def scanner_eval hex_value_def)

lemma takeWhile_digits: "takeWhile is_digit (replicate n 49 @ [93]) = replicate n 49"
  by (induction n) (simp_all add: is_digit_def)

lemma dropWhile_digits: "dropWhile is_digit (replicate n 49 @ [93]) = [93]"
  by (induction n) (simp_all add: is_digit_def)

lemma scan_number_many_digits:
  "0 < int_max_str_digits I \<Longrightarrow> int_max_str_digits I \<le> n \<Longrightarrow>
   scan_number I (49 # replicate n 49 @ [93]) = Inl (Raised_error ValueError)"
  by (simp add: scan_number_def match_integer_def takeWhile_digits dropWhile_digits
      float_tail_def too_many_digits_def)

lemma json_loads_many_digits:
  assumes "0 < int_max_str_digits I" and "int_max_str_digits I \<le> n" and "0 < json_depth I"
  shows "json_loads_text I (91 # replicate (Suc n) 49 @ [93]) = Inl (Raised_error ValueError)"
proof -
  have "scan_once I (Suc (Suc (Suc k))) 0 (91 # 49 # replicate n 49 @ [93]) =
      Inl (Raised_error ValueError)" for k
    using assms(3)
    by (simp add: scan_once.simps array_items.simps skip_ws_def is_ws_def
        scan_number_many_digits [OF assms(1,2)])
  from this [of "Suc n"] show ?thesis
    by (simp add: json_loads_text_def skip_ws_def is_ws_def)
qed

lemma example_many_digits_text:
  "json_loads_text example_interpreter EXAMPLE_MANY_DIGITS = Inl (Raised_error ValueError)"
proof -
  have n: "(4301::nat) = Suc 4300" by simp
  show ?thesis
    unfolding EXAMPLE_MANY_DIGITS_def n
    by (rule json_loads_many_digits) (simp_all add: example_interpreter_def)
qed

lemma example_loads:
  "example_json_loads EXAMPLE_RESPONSE = Returned (JArr EXAMPLE_SUB_REQUIREMENTS)"
  "example_json_loads EXAMPLE_VERDICT = Returned (JObj [(lit ''verdict'', JStr (lit ''fine''))])"
  "example_json_loads EXAMPLE_EVALUATION =
     Returned (JObj [(lit ''score'', JInt 4), (lit ''justification'', JStr (lit ''ok''))])"
  "example_json_loads EXAMPLE_MANY_DIGITS = Raised ValueError"
  "example_json_loads EXAMPLE_NOT_JSON = Raised_JSONDecodeError"
  "example_json_loads EXAMPLE_SURROGATE_STRING = Returned (JStr [55296])"
  by (simp_all add: example_json_loads_def example_response_text example_verdict_text
      example_evaluation_text example_many_digits_text example_not_json_text
      example_surrogate_string_text)

section \<open>Properties of the decomposer driver\<close>

lemma row_number_of_result_record [simp]: "row_number_of (result_record r xs) = r"
  by (simp add: result_record_def dict_get_def)

lemma main_loop_records:
  "main_loop e items (res, sent) = Inr (res', sent') \<Longrightarrow>
   \<exists>new. res' = res @ new \<and>
     (\<forall>r \<in> set new. \<exists>item \<in> set items. \<exists>xs.
        xs \<noteq> [] \<and> r = result_record (row_of item) xs \<and>
        truthy (row_of item) \<and> truthy (req_of item))"
proof (induction items arbitrary: res sent)
  case Nil
  then show ?case by simp
next
  case (Cons item items)
  from Cons.prems obtain kvs where item: "item = JObj kvs"
    by (cases item) auto
  let ?row = "dict_get kvs (lit ''row'')" and ?req = "dict_get kvs (lit ''req'')"
  show ?case
  proof (cases "truthy ?row \<and> truthy ?req")
    case False
    with Cons.prems item have "main_loop e items (res, sent) = Inr (res', sent')"
      by auto
    from Cons.IH [OF this] show ?thesis by auto
  next
    case True
    with Cons.prems item obtain dl s1 where
      d: "decompose_requirement e sent ?req (Some (decomposition_rules e)) None = Inr (dl, s1)"
      by (auto split: sum.splits)
    show ?thesis
    proof (cases "\<exists>xs. dl = Some xs \<and> xs \<noteq> []")
      case False
      with Cons.prems item True d have "main_loop e items (res, s1) = Inr (res', sent')"
        by (cases dl) auto
      from Cons.IH [OF this] show ?thesis by auto
    next
      case yes: True
      then obtain xs where xs: "dl = Some xs" "xs \<noteq> []" by blast
      with Cons.prems item True d have
        "main_loop e items (res @ [result_record ?row xs], s1) = Inr (res', sent')"
        by auto
      from Cons.IH [OF this] obtain new where
        new: "res' = (res @ [result_record ?row xs]) @ new"
          "\<forall>r \<in> set new. \<exists>item \<in> set items. \<exists>xs.
             xs \<noteq> [] \<and> r = result_record (row_of item) xs \<and>
             truthy (row_of item) \<and> truthy (req_of item)"
        by blast
      have "res' = res @ (result_record ?row xs # new)" using new(1) by simp
      moreover have "\<forall>r \<in> set (result_record ?row xs # new). \<exists>it \<in> set (item # items). \<exists>xs.
             xs \<noteq> [] \<and> r = result_record (row_of it) xs \<and>
             truthy (row_of it) \<and> truthy (req_of it)"
        using new(2) xs(2) True item by auto
      ultimately show ?thesis by blast
    qed
  qed
qed

lemma output_records_main:
  "r \<in> set (output_records (main e file)) \<Longrightarrow>
   \<exists>item \<in> set (input_items file). \<exists>xs.
     xs \<noteq> [] \<and> r = result_record (row_of item) xs \<and>
     truthy (row_of item) \<and> truthy (req_of item)"
proof -
  assume r: "r \<in> set (output_records (main e file))"
  then obtain data res sent where
    l: "load_requirements_from_json file None = Some data" and
    m: "main_loop e data ([], []) = Inr (res, sent)" and
    rr: "r \<in> set res"
    by (auto simp: output_records_def main_def split: option.splits if_splits sum.splits json.splits)
  from l have "data = input_items file"
    by (auto simp: load_requirements_from_json_def input_items_def split: option.splits json.splits if_splits)
  with main_loop_records [OF m] rr show ?thesis by auto
qed


lemma example_response_nonempty: "EXAMPLE_RESPONSE \<noteq> []"
  by (simp add: EXAMPLE_RESPONSE_def)

lemma example_subs_nonempty: "EXAMPLE_SUB_REQUIREMENTS \<noteq> []"
  by (simp add: EXAMPLE_SUB_REQUIREMENTS_def)

lemma example_output:
  "output_records (main example_env (Some example_file)) =
     [result_record (JInt 5) EXAMPLE_SUB_REQUIREMENTS]"
  by (simp add: output_records_def main_def load_requirements_from_json_def example_file_def
      dict_get_def decompose_requirement_def build_user_prompt_def py_join_def call_llm_api_def
      example_env_def example_loads example_response_nonempty example_subs_nonempty
      str_of_nat.simps [of 1])

lemma main_loop_skip:
  "\<not> truthy (dict_get kvs (lit ''row'')) \<or> \<not> truthy (dict_get kvs (lit ''req'')) \<Longrightarrow>
   main_loop e (JObj kvs # rest) st = main_loop e rest st"
  by (cases st) auto

lemma dict_get_missing: "k \<notin> fst ` set kvs \<Longrightarrow> dict_get kvs k = JNull"
  by (simp add: dict_get_def map_of_eq_None_iff [THEN iffD2])

text \<open>
  Claim C1. The row numbers of the records in the output file of \<open>main\<close> are among the
  row values of the items of the input file: every record stems from an item that was
  read. An input file with an item that lacks \<open>row\<close> or \<open>req\<close> gives no output record; in
  the loop an item without one of the two keys is passed over, and an item whose API call
  fails leaves the accumulated results as they were.
\<close>

theorem main_output_rows:
  "row_number_of ` set (output_records (main e file)) \<subseteq> row_of ` set (input_items file) \<and>
   (\<not> list_all requirement_item (input_items file) \<longrightarrow> output_records (main e file) = []) \<and>
   (\<forall>kvs rest st. lit ''row'' \<notin> fst ` set kvs \<or> lit ''req'' \<notin> fst ` set kvs \<longrightarrow>
      main_loop e (JObj kvs # rest) st = main_loop e rest st) \<and>
   (\<forall>kvs rest res sent user.
      truthy (dict_get kvs (lit ''row'')) \<and> truthy (dict_get kvs (lit ''req'')) \<and>
      build_user_prompt (dict_get kvs (lit ''req'')) (Some (decomposition_rules e)) None = Inr user \<and>
      fst (call_llm_api e sent (system_prompt e) user) = None \<longrightarrow>
      main_loop e (JObj kvs # rest) (res, sent) =
        main_loop e rest (res, snd (call_llm_api e sent (system_prompt e) user)))"
proof (intro conjI allI impI)
  show "row_number_of ` set (output_records (main e file)) \<subseteq> row_of ` set (input_items file)"
  proof
    fix x assume "x \<in> row_number_of ` set (output_records (main e file))"
    then obtain r where r: "r \<in> set (output_records (main e file))" "x = row_number_of r"
      by blast
    from output_records_main [OF r(1)] r(2) show "x \<in> row_of ` set (input_items file)"
      by auto
  qed
next
  assume "\<not> list_all requirement_item (input_items file)"
  then have "load_requirements_from_json file None = None"
    by (auto simp: load_requirements_from_json_def input_items_def split: option.splits json.splits)
  then show "output_records (main e file) = []"
    by (simp add: main_def output_records_def)
next
  fix kvs :: "(pystr \<times> json) list" and rest st
  assume "lit ''row'' \<notin> fst ` set kvs \<or> lit ''req'' \<notin> fst ` set kvs"
  then have "\<not> truthy (dict_get kvs (lit ''row'')) \<or> \<not> truthy (dict_get kvs (lit ''req''))"
    by (auto simp: dict_get_missing)
  then show "main_loop e (JObj kvs # rest) st = main_loop e rest st"
    by (rule main_loop_skip)
next
  fix kvs rest res sent user
  assume "truthy (dict_get kvs (lit ''row'')) \<and> truthy (dict_get kvs (lit ''req'')) \<and>
      build_user_prompt (dict_get kvs (lit ''req'')) (Some (decomposition_rules e)) None = Inr user \<and>
      fst (call_llm_api e sent (system_prompt e) user) = None"
  then show "main_loop e (JObj kvs # rest) (res, sent) =
        main_loop e rest (res, snd (call_llm_api e sent (system_prompt e) user))"
    by (cases "call_llm_api e sent (system_prompt e) user")
      (simp add: decompose_requirement_def)
qed

lemma example_input_rows:
  "row_of ` set (input_items (Some example_file)) = {JInt 0, JInt 5, JInt 6}"
  by (simp add: input_items_def example_file_def dict_get_def)

theorem main_output_rows_witness:
  "output_records (main example_env (Some example_file)) =
     [result_record (JInt 5) EXAMPLE_SUB_REQUIREMENTS] \<and>
   {JInt 5} \<subseteq> {JInt 0, JInt 5, JInt 6} \<and>
   output_records (main example_env (Some (JArr [JObj [(lit ''row'', JInt 1)]]))) = [] \<and>
   main_loop example_env [JObj [(lit ''req'', JStr (lit ''A''))]] ([], []) = Inr ([], []) \<and>
   main_loop example_env [JObj [(lit ''row'', JInt 1), (lit ''req'', JStr (lit ''A''))]]
       ([], [(lit ''s'', lit ''u'')]) =
     Inr ([], [(lit ''s'', lit ''u''),
               (lit ''system'',
                projr (build_user_prompt (JStr (lit ''A'')) (Some [lit ''rule'']) None))])"
proof -
  note t = main_output_rows [of example_env]
  have a: "{JInt 5} \<subseteq> {JInt 0, JInt 5, JInt 6}"
    using t [of "Some example_file"] by (simp add: example_output example_input_rows)
  have "\<not> list_all requirement_item (input_items (Some (JArr [JObj [(lit ''row'', JInt 1)]])))"
    by (simp add: input_items_def)
  with t [of "Some (JArr [JObj [(lit ''row'', JInt 1)]])"]
  have b: "output_records (main example_env (Some (JArr [JObj [(lit ''row'', JInt 1)]]))) = []"
    by blast
  have "lit ''row'' \<notin> fst ` set [(lit ''req'', JStr (lit ''A''))]" by simp
  with t [of None]
  have "main_loop example_env (JObj [(lit ''req'', JStr (lit ''A''))] # []) ([], []) =
      main_loop example_env [] ([], [])"
    by blast
  then have c: "main_loop example_env [JObj [(lit ''req'', JStr (lit ''A''))]] ([], []) = Inr ([], [])"
    by simp
  let ?kvs = "[(lit ''row'', JInt 1), (lit ''req'', JStr (lit ''A''))]"
  let ?user = "projr (build_user_prompt (JStr (lit ''A'')) (Some [lit ''rule'']) None)"
  have h: "truthy (dict_get ?kvs (lit ''row'')) \<and> truthy (dict_get ?kvs (lit ''req'')) \<and>
      build_user_prompt (dict_get ?kvs (lit ''req'')) (Some (decomposition_rules example_env)) None =
        Inr ?user \<and>
      fst (call_llm_api example_env [(lit ''s'', lit ''u'')] (system_prompt example_env) ?user) = None"
    by (simp add: dict_get_def example_env_def build_user_prompt_def py_join_def call_llm_api_def)
  have s: "snd (call_llm_api example_env [(lit ''s'', lit ''u'')] (system_prompt example_env) ?user) =
      [(lit ''s'', lit ''u''), (lit ''system'', ?user)]"
    by (simp add: example_env_def call_llm_api_def)
  from t [of None] h
  have "main_loop example_env (JObj ?kvs # []) ([], [(lit ''s'', lit ''u'')]) =
      main_loop example_env []
        ([], snd (call_llm_api example_env [(lit ''s'', lit ''u'')] (system_prompt example_env) ?user))"
    by blast
  then have d: "main_loop example_env [JObj ?kvs] ([], [(lit ''s'', lit ''u'')]) =
      Inr ([], [(lit ''s'', lit ''u''), (lit ''system'', ?user)])"
    unfolding s by simp
  from a b c d example_output show ?thesis by blast
qed

text \<open>
  Claim C10. The loop of \<open>main\<close> passes over every item whose \<open>row\<close> is the integer 0 and
  every item whose \<open>req\<close> is the empty string, although the key is present: the state
  (results and requests sent) is unchanged. So every record of the output file stems
  from an item with a truthy, hence non-zero, row and a truthy, hence non-empty,
  requirement.
\<close>

theorem main_skips_falsy:
  "(\<forall>kvs rest st.
      dict_get kvs (lit ''row'') = JInt 0 \<or> dict_get kvs (lit ''req'') = JStr [] \<longrightarrow>
      main_loop e (JObj kvs # rest) st = main_loop e rest st) \<and>
   (\<forall>r \<in> set (output_records (main e file)).
      \<exists>item \<in> set (input_items file).
        row_number_of r = row_of item \<and> truthy (row_of item) \<and> truthy (req_of item) \<and>
        row_of item \<noteq> JInt 0 \<and> req_of item \<noteq> JStr [])"
proof (intro conjI allI impI ballI)
  fix kvs rest st
  assume "dict_get kvs (lit ''row'') = JInt 0 \<or> dict_get kvs (lit ''req'') = JStr []"
  then have "\<not> truthy (dict_get kvs (lit ''row'')) \<or> \<not> truthy (dict_get kvs (lit ''req''))"
    by auto
  then show "main_loop e (JObj kvs # rest) st = main_loop e rest st"
    by (rule main_loop_skip)
next
  fix r assume "r \<in> set (output_records (main e file))"
  from output_records_main [OF this] show
    "\<exists>item \<in> set (input_items file).
        row_number_of r = row_of item \<and> truthy (row_of item) \<and> truthy (req_of item) \<and>
        row_of item \<noteq> JInt 0 \<and> req_of item \<noteq> JStr []"
    by (auto intro!: bexI)
qed

theorem main_skips_falsy_witness:
  "main_loop example_env
     [JObj [(lit ''row'', JInt 0), (lit ''req'', JStr (lit ''A''))],
      JObj [(lit ''row'', JInt 4), (lit ''req'', JStr [])]] ([], []) = Inr ([], []) \<and>
   (\<exists>item \<in> set (input_items (Some example_file)).
      row_number_of (result_record (JInt 5) EXAMPLE_SUB_REQUIREMENTS) = row_of item \<and>
      truthy (row_of item) \<and> truthy (req_of item) \<and>
      row_of item \<noteq> JInt 0 \<and> req_of item \<noteq> JStr [])"
proof -
  note t = main_skips_falsy [of example_env "Some example_file"]
  let ?a = "[(lit ''row'', JInt 0), (lit ''req'', JStr (lit ''A''))]"
  let ?b = "[(lit ''row'', JInt 4), (lit ''req'', JStr [])]"
  have "dict_get ?a (lit ''row'') = JInt 0" "dict_get ?b (lit ''req'') = JStr []"
    by (simp_all add: dict_get_def)
  with t have
    "main_loop example_env (JObj ?a # [JObj ?b]) ([], []) = main_loop example_env [JObj ?b] ([], [])"
    "main_loop example_env (JObj ?b # []) ([], []) = main_loop example_env [] ([], [])"
    by blast+
  then have a: "main_loop example_env [JObj ?a, JObj ?b] ([], []) = Inr ([], [])"
    by simp
  have "result_record (JInt 5) EXAMPLE_SUB_REQUIREMENTS \<in>
      set (output_records (main example_env (Some example_file)))"
    by (simp add: example_output)
  with t have "\<exists>item \<in> set (input_items (Some example_file)).
      row_number_of (result_record (JInt 5) EXAMPLE_SUB_REQUIREMENTS) = row_of item \<and>
      truthy (row_of item) \<and> truthy (req_of item) \<and>
      row_of item \<noteq> JInt 0 \<and> req_of item \<noteq> JStr []"
    by blast
  with a show ?thesis by blast
qed


section \<open>Properties of decompose_requirement and evaluate_decomposition\<close>


















end
